theory Spec2Isabelle
  imports Complex_Main "HOL-Library.Word" "HOL-Library.Multiset"
begin

unbundle bit_operations_syntax

section \<open>Python values and errors\<close>

text \<open>
  The exceptions the module can raise. \<open>NoSuchObject\<close> is not a Python exception: it
  stands for a read through an address that the store does not hold, which no Python
  reference can be; it only makes the store's operations total.
\<close>

datatype error = AttributeError | TypeError | ValueError | IndexError | NoSuchObject

text \<open>
  What a name of a class body can be bound to in \<open>utils.py\<close>: an integer, a list of
  strings (\<open>attrs\<close>) or a method (\<open>indices\<close>).
\<close>

datatype pyval = PyInt nat | PyStrs "string list" | PyMethod

section \<open>Arrays\<close>

text \<open>
  A volume is a three-dimensional numpy array, kept as its shape and its elements in
  row-major order. The labelled volumes are arrays of 16-bit unsigned integers (what
  \<open>getRaw\<close> reads), so their arithmetic wraps around; the elements of a floating-point
  array are real numbers, that is, rounding is not part of the model.
\<close>

type_synonym shape3 = "nat \<times> nat \<times> nat"

datatype precision = single | double

datatype dtype = uint16 | floating precision

abbreviation float64 :: dtype where "float64 \<equiv> floating double"

datatype ndarray = IntArr shape3 "16 word list" | FltArr precision shape3 "real list"

fun shape_of :: "ndarray \<Rightarrow> shape3" where
  "shape_of (IntArr sh vs) = sh"
| "shape_of (FltArr p sh xs) = sh"

fun dtype_of :: "ndarray \<Rightarrow> dtype" where
  "dtype_of (IntArr sh vs) = uint16"
| "dtype_of (FltArr p sh xs) = floating p"

fun nelems :: "ndarray \<Rightarrow> nat" where
  "nelems (IntArr sh vs) = length vs"
| "nelems (FltArr p sh xs) = length xs"

text \<open>The elements of an array as real numbers.\<close>

fun values_of :: "ndarray \<Rightarrow> real list" where
  "values_of (IntArr sh vs) = map (\<lambda>v. real (unat v)) vs"
| "values_of (FltArr p sh xs) = xs"

text \<open>
  \<open>im - x\<close> for a scalar \<open>x\<close>. Every integer the classes bind is below \<open>2 ^ 16\<close>, where
  numpy keeps the type of a \<open>uint16\<close> array and the difference wraps around. A list of
  strings has no subtraction loop (TypeError); a method is an object, and the object loop
  raises TypeError at the first element it subtracts from.
\<close>

fun np_sub :: "ndarray \<Rightarrow> pyval \<Rightarrow> error + ndarray" where
  "np_sub (IntArr sh vs) (PyInt L) = Inr (IntArr sh (map (\<lambda>v. v - word_of_nat L) vs))"
| "np_sub (FltArr p sh xs) (PyInt L) = Inr (FltArr p sh (map (\<lambda>x. x - real L) xs))"
| "np_sub a (PyStrs ss) = Inl TypeError"
| "np_sub a PyMethod = (if nelems a = 0 then Inr a else Inl TypeError)"

text \<open>\<open>abs(a)\<close>: the absolute value of an unsigned integer is the integer itself.\<close>

fun np_abs :: "ndarray \<Rightarrow> ndarray" where
  "np_abs (IntArr sh vs) = IntArr sh vs"
| "np_abs (FltArr p sh xs) = FltArr p sh (map (\<lambda>x. \<bar>x\<bar>) xs)"

text \<open>\<open>a < n\<close> and \<open>a != n\<close> for an integer \<open>n\<close>, elementwise.\<close>

fun np_lt :: "ndarray \<Rightarrow> nat \<Rightarrow> bool list" where
  "np_lt (IntArr sh vs) n = map (\<lambda>v. unat v < n) vs"
| "np_lt (FltArr p sh xs) n = map (\<lambda>x. x < real n) xs"

fun np_ne :: "ndarray \<Rightarrow> nat \<Rightarrow> bool list" where
  "np_ne (IntArr sh vs) n = map (\<lambda>v. unat v \<noteq> n) vs"
| "np_ne (FltArr p sh xs) n = map (\<lambda>x. x \<noteq> real n) xs"

text \<open>
  \<open>a + b\<close> on boolean arrays is the logical or; \<open>m > 0\<close> reads \<open>True\<close> as 1.
\<close>

definition np_add_bool :: "bool list \<Rightarrow> bool list \<Rightarrow> bool list" where
  "np_add_bool a b = map (\<lambda>(x, y). x \<or> y) (zip a b)"

definition np_gt0 :: "bool list \<Rightarrow> bool list" where
  "np_gt0 m = map (\<lambda>b. (if b then (1::nat) else 0) > 0) m"

section \<open>The tissue code registry\<close>

text \<open>
  The four classes \<open>Act\<close>, \<open>Pet(Act)\<close>, \<open>T1(Act)\<close> and \<open>T2(T1)\<close>. The namespace of a class
  is what the statements of its body bind; \<open>getattr\<close> searches the class and then its
  bases. The attributes that the interpreter gives every class (\<open>__doc__\<close>, \<open>__dict__\<close>,
  ...) are not bound by the source and are left out.
\<close>

datatype cls = Act | Pet | T1 | T2

definition Act_labels :: "(string \<times> nat) list" where
  "Act_labels =
     zip [''background'', ''csf'', ''greyMatter'', ''whiteMatter'', ''fat'', ''muscle'',
          ''skin'', ''skull'', ''vessels'', ''aroundFat'', ''dura'', ''marrow'']
         (map (\<lambda>i. push_bit 4 i) [0..<12])"

definition Act_bone :: nat where
  "Act_bone = the (map_of Act_labels ''skull'') OR the (map_of Act_labels ''marrow'')
                OR the (map_of Act_labels ''dura'')"

fun body :: "cls \<Rightarrow> (string \<times> pyval) list" where
  "body Act =
     map (\<lambda>(name, code). (name, PyInt code)) Act_labels
       @ [(''bone'', PyInt Act_bone), (''indices'', PyMethod)]"
| "body Pet =
     (let whiteMatter = 32 in
      [(''whiteMatter'', PyInt whiteMatter),
       (''greyMatter'', PyInt (whiteMatter * 4)),
       (''skin'', PyInt (whiteMatter div 2)),
       (''attrs'', PyStrs [''whiteMatter'', ''greyMatter'', ''skin''])])"
| "body T1 =
     [(''whiteMatter'', PyInt 154),
      (''greyMatter'', PyInt 106),
      (''skin'', PyInt 92),
      (''skull'', PyInt 48),
      (''marrow'', PyInt 180),
      (''bone'', PyInt 48),
      (''csf'', PyInt 48),
      (''attrs'', PyStrs [''whiteMatter'', ''greyMatter'', ''skin'', ''skull'', ''marrow'',
                          ''bone'', ''csf''])]"
| "body T2 =
     [(''whiteMatter'', PyInt 70),
      (''greyMatter'', PyInt 100),
      (''skin'', PyInt 70),
      (''skull'', PyInt 100),
      (''marrow'', PyInt 250),
      (''csf'', PyInt 250),
      (''bone'', PyInt 200)]"

fun mro :: "cls \<Rightarrow> cls list" where
  "mro Act = [Act]"
| "mro Pet = [Pet, Act]"
| "mro T1 = [T1, Act]"
| "mro T2 = [T2, T1, Act]"

fun lookup_mro :: "cls list \<Rightarrow> string \<Rightarrow> error + pyval" where
  "lookup_mro [] attr = Inl AttributeError"
| "lookup_mro (c # cs) attr =
     (case map_of (body c) attr of Some v \<Rightarrow> Inr v | None \<Rightarrow> lookup_mro cs attr)"

definition getattr_cls :: "cls \<Rightarrow> string \<Rightarrow> error + pyval" where
  "getattr_cls c attr = lookup_mro (mro c) attr"

text \<open>
  The class method \<open>indices\<close>. The composite label \<open>bone\<close> is resolved by three
  recursive calls; any other name is looked up in the class.
\<close>

function indices :: "cls \<Rightarrow> ndarray \<Rightarrow> string \<Rightarrow> error + bool list" where
  "indices c im attr =
     (if attr = ''bone'' then
        (case indices c im ''skull'' of Inl e \<Rightarrow> Inl e | Inr s \<Rightarrow>
         (case indices c im ''marrow'' of Inl e \<Rightarrow> Inl e | Inr m \<Rightarrow>
          (case indices c im ''dura'' of Inl e \<Rightarrow> Inl e | Inr d \<Rightarrow>
             Inr (np_gt0 (np_add_bool (np_add_bool s m) d)))))
      else
        (case getattr_cls c attr of Inl e \<Rightarrow> Inl e | Inr x \<Rightarrow>
         (case np_sub im x of Inl e \<Rightarrow> Inl e | Inr d \<Rightarrow>
            Inr (np_lt (np_abs d) 1))))"
  by pat_completeness auto
termination
  by (relation "measure (\<lambda>(c, im, attr). if attr = ''bone'' then 1 else 0)") auto

declare indices.simps [simp del]

section \<open>The store\<close>

text \<open>
  Arrays are objects: a variable holds a reference, an indexed assignment changes the
  object in place, and two references may name the same object. The process state is the
  store of array objects (an address is a position in it, and a new object is appended),
  the records handed to the logger, and the position of the global random generator in
  its stream of draws. A statement is a function from the state to a result, or an
  exception, and the state it leaves.
\<close>

record world =
  heap :: "ndarray list"
  log :: "string list"
  rng :: nat

type_synonym 'a io = "world \<Rightarrow> (error + 'a) \<times> world"

definition return_io :: "'a \<Rightarrow> 'a io" where
  "return_io x w = (Inr x, w)"

definition raise_io :: "error \<Rightarrow> 'a io" where
  "raise_io e w = (Inl e, w)"

definition lift_io :: "error + 'a \<Rightarrow> 'a io" where
  "lift_io r w = (r, w)"

definition bind_io :: "'a io \<Rightarrow> ('a \<Rightarrow> 'b io) \<Rightarrow> 'b io" where
  "bind_io m f w = (case m w of (Inl e, w') \<Rightarrow> (Inl e, w') | (Inr x, w') \<Rightarrow> f x w')"

definition alloc :: "ndarray \<Rightarrow> nat io" where
  "alloc a w = (Inr (length (heap w)), w\<lparr>heap := heap w @ [a]\<rparr>)"

definition load :: "nat \<Rightarrow> ndarray io" where
  "load p w = (if p < length (heap w) then (Inr (heap w ! p), w) else (Inl NoSuchObject, w))"

definition store :: "nat \<Rightarrow> ndarray \<Rightarrow> unit io" where
  "store p a w =
     (if p < length (heap w) then (Inr (), w\<lparr>heap := (heap w)[p := a]\<rparr>)
      else (Inl NoSuchObject, w))"

definition log_record :: "string \<Rightarrow> unit io" where
  "log_record s w = (Inr (), w\<lparr>log := log w @ [s]\<rparr>)"

fun mapM_io :: "('a \<Rightarrow> 'b io) \<Rightarrow> 'a list \<Rightarrow> 'b list io" where
  "mapM_io f [] = return_io []"
| "mapM_io f (x # xs) =
     bind_io (f x) (\<lambda>y. bind_io (mapM_io f xs) (\<lambda>ys. return_io (y # ys)))"

section \<open>Creating, converting and assigning arrays\<close>

fun elements :: "shape3 \<Rightarrow> nat" where
  "elements (nz, ny, nx) = nz * ny * nx"

fun zeros :: "shape3 \<Rightarrow> dtype \<Rightarrow> ndarray" where
  "zeros sh uint16 = IntArr sh (replicate (elements sh) 0)"
| "zeros sh (floating p) = FltArr p sh (replicate (elements sh) 0)"

fun zeros_like :: "ndarray \<Rightarrow> ndarray" where
  "zeros_like (IntArr sh vs) = IntArr sh (map (\<lambda>v. 0) vs)"
| "zeros_like (FltArr p sh xs) = FltArr p sh (map (\<lambda>x. 0) xs)"

text \<open>A real number stored in a \<open>uint16\<close> element is cut towards zero.\<close>

definition trunc :: "real \<Rightarrow> int" where
  "trunc x = (if 0 \<le> x then \<lfloor>x\<rfloor> else \<lceil>x\<rceil>)"

definition to_u16 :: "real \<Rightarrow> 16 word" where
  "to_u16 x = word_of_int (trunc x)"

fun astype :: "dtype \<Rightarrow> ndarray \<Rightarrow> ndarray" where
  "astype uint16 (IntArr sh vs) = IntArr sh vs"
| "astype uint16 (FltArr q sh xs) = IntArr sh (map to_u16 xs)"
| "astype (floating p) (IntArr sh vs) = FltArr p sh (map (\<lambda>v. real (unat v)) vs)"
| "astype (floating p) (FltArr q sh xs) = FltArr p sh xs"

text \<open>
  \<open>a[mask] = x\<close> on the array value: the mask must have the array's shape
  (IndexError otherwise).
\<close>

fun assign_mask :: "ndarray \<Rightarrow> bool list \<Rightarrow> real \<Rightarrow> error + ndarray" where
  "assign_mask (IntArr sh vs) m x =
     (if length m = length vs
      then Inr (IntArr sh (map (\<lambda>(b, v). if b then to_u16 x else v) (zip m vs)))
      else Inl IndexError)"
| "assign_mask (FltArr p sh xs) m x =
     (if length m = length xs
      then Inr (FltArr p sh (map (\<lambda>(b, v). if b then x else v) (zip m xs)))
      else Inl IndexError)"

text \<open>The same assignment on the object at address \<open>p\<close>, in place.\<close>

definition setitem :: "nat \<Rightarrow> bool list \<Rightarrow> real \<Rightarrow> unit io" where
  "setitem p m x =
     bind_io (load p) (\<lambda>a.
     bind_io (lift_io (assign_mask a m x)) (\<lambda>a'.
     store p a'))"

text \<open>
  \<open>np.pad(arr, [(lz, rz), (ly, ry), (lx, rx)], mode="constant")\<close>: a negative width is a
  ValueError; otherwise the array sits in a block of zeros, \<open>l\<close> planes, rows or columns
  before it and \<open>r\<close> after it on each axis.
\<close>

definition pad_elements ::
  "'a \<Rightarrow> shape3 \<Rightarrow> (nat \<times> nat) \<times> (nat \<times> nat) \<times> (nat \<times> nat) \<Rightarrow> 'a list \<Rightarrow> 'a list" where
  "pad_elements z sh w xs =
     (case (sh, w) of ((nz, ny, nx), ((lz, rz), (ly, ry), (lx, rx))) \<Rightarrow>
        concat (map (\<lambda>k. concat (map (\<lambda>j. map (\<lambda>i.
          if lz \<le> k \<and> k < lz + nz \<and> ly \<le> j \<and> j < ly + ny \<and> lx \<le> i \<and> i < lx + nx
             \<and> ((k - lz) * ny + (j - ly)) * nx + (i - lx) < length xs
          then xs ! (((k - lz) * ny + (j - ly)) * nx + (i - lx)) else z)
          [0..<lx + nx + rx]) [0..<ly + ny + ry])) [0..<lz + nz + rz]))"

fun padded_shape :: "shape3 \<Rightarrow> (nat \<times> nat) \<times> (nat \<times> nat) \<times> (nat \<times> nat) \<Rightarrow> shape3" where
  "padded_shape (nz, ny, nx) ((lz, rz), (ly, ry), (lx, rx)) =
     (lz + nz + rz, ly + ny + ry, lx + nx + rx)"

fun np_pad :: "ndarray \<Rightarrow> (int \<times> int) \<times> (int \<times> int) \<times> (int \<times> int) \<Rightarrow> error + ndarray" where
  "np_pad a ((lz, rz), (ly, ry), (lx, rx)) =
     (if lz < 0 \<or> rz < 0 \<or> ly < 0 \<or> ry < 0 \<or> lx < 0 \<or> rx < 0 then Inl ValueError
      else
        (let w = ((nat lz, nat rz), (nat ly, nat ry), (nat lx, nat rx)) in
         case a of
           IntArr sh vs \<Rightarrow> Inr (IntArr (padded_shape sh w) (pad_elements 0 sh w vs))
         | FltArr p sh xs \<Rightarrow> Inr (FltArr p (padded_shape sh w) (pad_elements 0 sh w xs))))"

section \<open>The geometry registry\<close>

text \<open>
  The classes \<open>Res\<close> and \<open>Shape\<close> bind three vectors each. The vectors are numpy arrays
  of floating-point numbers; here their components are the real numbers that the
  literals denote.
\<close>

type_synonym vec3 = "real \<times> real \<times> real"

fun vmap :: "('a \<Rightarrow> 'b) \<Rightarrow> 'a \<times> 'a \<times> 'a \<Rightarrow> 'b \<times> 'b \<times> 'b" where
  "vmap f (z, y, x) = (f z, f y, f x)"

fun vzip :: "'a \<times> 'a \<times> 'a \<Rightarrow> 'b \<times> 'b \<times> 'b \<Rightarrow> ('a \<times> 'b) \<times> ('a \<times> 'b) \<times> ('a \<times> 'b)" where
  "vzip (z, y, x) (z', y', x') = ((z, z'), (y, y'), (x, x'))"

definition vmul :: "vec3 \<Rightarrow> vec3 \<Rightarrow> vec3" where
  "vmul a b = vmap (\<lambda>(p, q). p * q) (vzip a b)"

definition vdiv :: "vec3 \<Rightarrow> vec3 \<Rightarrow> vec3" where
  "vdiv a b = vmap (\<lambda>(p, q). p / q) (vzip a b)"

definition vsub :: "vec3 \<Rightarrow> vec3 \<Rightarrow> vec3" where
  "vsub a b = vmap (\<lambda>(p, q). p - q) (vzip a b)"

definition Res_mMR :: vec3 where "Res_mMR = (2.0312, 2.0863, 2.0863)"
definition Res_MR :: vec3 where "Res_MR = (1.0, 1.0, 1.0)"
definition Res_brainweb :: vec3 where "Res_brainweb = (0.5, 0.5, 0.5)"

definition Res :: "(string \<times> vec3) list" where
  "Res = [(''mMR'', Res_mMR), (''MR'', Res_MR), (''brainweb'', Res_brainweb)]"

definition Shape_mMR :: vec3 where "Shape_mMR = (127, 344, 344)"

definition Shape :: "(string \<times> vec3) list" where
  "Shape = [(''mMR'', Shape_mMR),
            (''MR'', vdiv (vmul Shape_mMR Res_mMR) Res_MR),
            (''brainweb'', vdiv (vmul Shape_mMR Res_mMR) Res_brainweb)]"

definition getattr_vec :: "(string \<times> vec3) list \<Rightarrow> string \<Rightarrow> error + vec3" where
  "getattr_vec c name = (case map_of c name of Some v \<Rightarrow> Inr v | None \<Rightarrow> Inl AttributeError)"

section \<open>The modality synthesizer\<close>

definition mu_bone_1_cm :: real where "mu_bone_1_cm = 0.13"
definition mu_tissue_1_cm :: real where "mu_tissue_1_cm = 0.0975"

text \<open>The decimal digits of a number, for the \<open>%d\<close> of the log records.\<close>

fun string_of_nat :: "nat \<Rightarrow> string" where
  "string_of_nat n =
     (if n < 10 then [''0123456789'' ! n]
      else string_of_nat (n div 10) @ [''0123456789'' ! (n mod 10)])"

text \<open>\<open>"TAG:%s:%d" % (attr, x)\<close>: \<open>%d\<close> wants a number.\<close>

fun format_debug :: "string \<Rightarrow> string \<Rightarrow> pyval \<Rightarrow> error + string" where
  "format_debug tag attr (PyInt n) = Inr (tag @ '':'' @ attr @ '':'' @ string_of_nat n)"
| "format_debug tag attr x = Inl TypeError"

text \<open>The value that an indexed assignment writes; only numbers reach it here.\<close>

fun number :: "pyval \<Rightarrow> error + real" where
  "number (PyInt n) = Inr (real n)"
| "number x = Inl TypeError"

text \<open>\<open>for attr in P.attrs\<close>: the attribute must be a list.\<close>

definition attrs_of :: "cls \<Rightarrow> error + string list" where
  "attrs_of P =
     (case getattr_cls P ''attrs'' of
        Inl e \<Rightarrow> Inl e
      | Inr (PyStrs names) \<Rightarrow> Inr names
      | Inr x \<Rightarrow> Inl TypeError)"

text \<open>
  One of the three loops
  \<^verbatim>\<open>for attr in P.attrs:
    log.debug("TAG:%s:%d" % (attr, getattr(P, attr)))
    res[Act.indices(im, attr)] = getattr(P, attr)\<close>
  over the list \<open>names\<close>, with \<open>im\<close> and \<open>res\<close> the addresses of the two arrays. The right
  side of the assignment is evaluated before the index.
\<close>

fun paint :: "string \<Rightarrow> cls \<Rightarrow> nat \<Rightarrow> nat \<Rightarrow> string list \<Rightarrow> unit io" where
  "paint tag P im res [] = return_io ()"
| "paint tag P im res (attr # names) =
     bind_io (lift_io (getattr_cls P attr)) (\<lambda>x.
     bind_io (lift_io (format_debug tag attr x)) (\<lambda>line.
     bind_io (log_record line) (\<lambda>_.
     bind_io (lift_io (getattr_cls P attr)) (\<lambda>y.
     bind_io (lift_io (number y)) (\<lambda>v.
     bind_io (load im) (\<lambda>a.
     bind_io (lift_io (indices Act a attr)) (\<lambda>m.
     bind_io (setitem res m v) (\<lambda>_.
     paint tag P im res names))))))))"

text \<open>
  \<^verbatim>\<open>res = np.zeros_like(im)\<close> followed by the loop of profile \<open>P\<close>; the result is the
  address of the new volume.
\<close>

definition profile_volume :: "string \<Rightarrow> cls \<Rightarrow> nat \<Rightarrow> nat io" where
  "profile_volume tag P im =
     bind_io (load im) (\<lambda>a.
     bind_io (alloc (zeros_like a)) (\<lambda>res.
     bind_io (lift_io (attrs_of P)) (\<lambda>names.
     bind_io (paint tag P im res names) (\<lambda>_.
     return_io res))))"

text \<open>
  The mu-map:
  \<^verbatim>\<open>muMap = np.zeros(im.shape, dtype=dtype)
muMap[im != 0] = mu_tissue_1_cm
muMap[Act.indices(im, "bone")] = mu_bone_1_cm\<close>
\<close>

definition muMap_volume :: "dtype \<Rightarrow> nat \<Rightarrow> nat io" where
  "muMap_volume dt im =
     bind_io (load im) (\<lambda>a.
     bind_io (alloc (zeros (shape_of a) dt)) (\<lambda>muMap.
     bind_io (load im) (\<lambda>a1.
     bind_io (setitem muMap (np_ne a1 0) mu_tissue_1_cm) (\<lambda>_.
     bind_io (load im) (\<lambda>a2.
     bind_io (lift_io (indices Act a2 ''bone'')) (\<lambda>m.
     bind_io (setitem muMap m mu_bone_1_cm) (\<lambda>_.
     return_io muMap)))))))"

text \<open>
  \<open>np.rint\<close> rounds to the nearest integer and a half to the even neighbour;
  \<open>divmod(d, 2)\<close> on floating-point numbers is the floor of the quotient and what is
  left; \<open>astype(int)\<close> cuts towards zero.
\<close>

definition rint :: "real \<Rightarrow> real" where
  "rint x =
     (if x - of_int \<lfloor>x\<rfloor> < 1 / 2 then of_int \<lfloor>x\<rfloor>
      else if 1 / 2 < x - of_int \<lfloor>x\<rfloor> then of_int \<lfloor>x\<rfloor> + 1
      else if even \<lfloor>x\<rfloor> then of_int \<lfloor>x\<rfloor> else of_int \<lfloor>x\<rfloor> + 1)"

definition divmod2 :: "real \<Rightarrow> real \<times> real" where
  "divmod2 d = (of_int \<lfloor>d / 2\<rfloor>, d - 2 * of_int \<lfloor>d / 2\<rfloor>)"

definition new_shape_of :: "shape3 \<Rightarrow> vec3 \<Rightarrow> vec3" where
  "new_shape_of sh out_res = vmap rint (vdiv (vmul (vmap real sh) Res_brainweb) out_res)"

text \<open>
  The inner function \<open>resizeToMmr\<close>, which changes no object: it maps the array it is
  given to a new array. \<open>resize\<close> is scikit-image's function with the arguments
  \<open>order=1, mode="constant", anti_aliasing=False\<close>; it is not part of this module and is a
  parameter here.
\<close>

definition resizeToMmr ::
  "(ndarray \<Rightarrow> shape3 \<Rightarrow> error + ndarray) \<Rightarrow> vec3 \<Rightarrow> bool \<Rightarrow> vec3 \<Rightarrow> vec3 \<Rightarrow> dtype
     \<Rightarrow> ndarray \<Rightarrow> error + ndarray" where
  "resizeToMmr resize new_shape pad padLR padR dt arr =
     (case resize arr (vmap (\<lambda>x. nat \<lfloor>x\<rfloor>) new_shape) of Inl e \<Rightarrow> Inl e | Inr arr1 \<Rightarrow>
      (case (if pad
             then np_pad arr1
                    (vmap (\<lambda>(p, r). (p, p + r)) (vzip (vmap trunc padLR) (vmap trunc padR)))
             else Inr arr1) of Inl e \<Rightarrow> Inl e | Inr arr2 \<Rightarrow>
       (if dtype_of arr2 = uint16
        then Inr (FltArr single (shape_of arr2) (map (\<lambda>x. x * 2 ^ 16) (values_of arr2)))
        else Inr (astype dt arr2))))"

text \<open>
  \<open>toPetMmr\<close>, with \<open>im\<close> the address of the labelled volume. The result is the list of
  the addresses of the four new volumes; each array that \<open>resizeToMmr\<close> returns is a new
  object of the store.
\<close>

definition toPetMmr ::
  "(ndarray \<Rightarrow> shape3 \<Rightarrow> error + ndarray) \<Rightarrow> nat \<Rightarrow> bool \<Rightarrow> dtype \<Rightarrow> string \<Rightarrow> nat list io" where
  "toPetMmr resize im pad dt outres =
     bind_io (lift_io (getattr_vec Res outres)) (\<lambda>out_res.
     bind_io (lift_io (getattr_vec Shape outres)) (\<lambda>out_shape.
     bind_io (profile_volume ''PET'' Pet im) (\<lambda>res.
     bind_io (muMap_volume dt im) (\<lambda>muMap.
     bind_io (profile_volume ''T1'' T1 im) (\<lambda>t1.
     bind_io (profile_volume ''T2'' T2 im) (\<lambda>t2.
     bind_io (load im) (\<lambda>a.
     (let new_shape = new_shape_of (shape_of a) out_res;
          padLR = vmap (\<lambda>d. fst (divmod2 d)) (vsub out_shape new_shape);
          padR = vmap (\<lambda>d. snd (divmod2 d)) (vsub out_shape new_shape)
      in mapM_io (\<lambda>i. bind_io (load i) (\<lambda>arr.
                      bind_io (lift_io (resizeToMmr resize new_shape pad padLR padR dt arr))
                        alloc))
           [res, muMap, t1, t2]))))))))"

section \<open>The noise injector\<close>

text \<open>
  \<open>np.random.rand(*im.shape)\<close> takes as many draws from the global generator as the
  volume has voxels: \<open>uniform\<close> is the generator's stream of draws, \<open>rng\<close> the position in
  it. \<open>gaussian\<close> is scikit-image's filter, a parameter like \<open>resize\<close>.
\<close>

definition rand :: "(nat \<Rightarrow> real) \<Rightarrow> shape3 \<Rightarrow> real list io" where
  "rand uniform sh w =
     (Inr (map uniform [rng w..<rng w + elements sh]), w\<lparr>rng := rng w + elements sh\<rparr>)"

text \<open>\<open>im * f\<close> for a field \<open>f\<close> of the same shape; the product is a new \<open>float64\<close> array.\<close>

definition np_mul :: "ndarray \<Rightarrow> real list \<Rightarrow> error + ndarray" where
  "np_mul a f =
     (if length f = nelems a
      then Inr (FltArr double (shape_of a) (map (\<lambda>(x, y). x * y) (zip (values_of a) f)))
      else Inl ValueError)"

definition noise ::
  "(shape3 \<Rightarrow> real list \<Rightarrow> real \<Rightarrow> real list) \<Rightarrow> (nat \<Rightarrow> real) \<Rightarrow> nat \<Rightarrow> real \<Rightarrow> bool \<Rightarrow> real
     \<Rightarrow> nat io" where
  "noise gaussian uniform im n warn_zero sigma =
     (if n < 0 then raise_io ValueError
      else if n = 0 then
        bind_io (if warn_zero then log_record ''zero noise'' else return_io ()) (\<lambda>_.
        return_io im)
      else
        bind_io (load im) (\<lambda>a.
        bind_io (rand uniform (shape_of a)) (\<lambda>u.
        (let r = gaussian (shape_of a) u sigma in
         bind_io (lift_io (np_mul a (map (\<lambda>x. 1 + n * (2 * x - 1)) r))) (\<lambda>out.
         alloc out)))))"

section \<open>Reading the loops voxel by voxel\<close>

text \<open>
  The notions below are not in the source: they say what the masks and the loops do at a
  single voxel of a \<open>uint16\<close> volume, and the theorems relate them to the functions above.
  \<open>act_selects attr v\<close>: the mask \<open>Act.indices(im, attr)\<close> is true at a voxel of value \<open>v\<close>.
  \<open>written P attr\<close>: the element that \<open>res[...] = getattr(P, attr)\<close> writes.
  \<open>last_write P names v r\<close>: what a voxel of \<open>res\<close> holds after the loop over \<open>names\<close>, when
  it held \<open>r\<close> before and the voxel of \<open>im\<close> at its place has the value \<open>v\<close>.
\<close>

definition act_selects :: "string \<Rightarrow> 16 word \<Rightarrow> bool" where
  "act_selects attr v = (indices Act (IntArr (1, 1, 1) [v]) attr = Inr [True])"

definition written :: "cls \<Rightarrow> string \<Rightarrow> 16 word" where
  "written P attr = (case getattr_cls P attr of Inr (PyInt n) \<Rightarrow> to_u16 (real n) | _ \<Rightarrow> 0)"

fun last_write :: "cls \<Rightarrow> string list \<Rightarrow> 16 word \<Rightarrow> 16 word \<Rightarrow> 16 word" where
  "last_write P [] v r = r"
| "last_write P (attr # names) v r =
     last_write P names v (if act_selects attr v then written P attr else r)"

text \<open>
  The part of a list of names from \<open>bone\<close> on: the names painted after \<open>bone\<close>, and
  \<open>bone\<close> itself.
\<close>

definition from_bone :: "string list \<Rightarrow> string list" where
  "from_bone names = dropWhile (\<lambda>a. a \<noteq> ''bone'') names"

text \<open>
  A name that a loop can paint: the profile binds it to a number, and it is a label of
  \<open>Act\<close> or the composite \<open>bone\<close>.
\<close>

definition paintable :: "cls \<Rightarrow> string \<Rightarrow> bool" where
  "paintable P attr =
     ((case getattr_cls P attr of Inr (PyInt n) \<Rightarrow> True | _ \<Rightarrow> False)
      \<and> (attr = ''bone'' \<or> attr \<in> fst ` set Act_labels))"


text \<open>
  \<open>allocates k Q m\<close>: whatever the state, the statement \<open>m\<close> leaves every object that the
  store held as it was and only adds objects; when it returns a value \<open>x\<close>, it has added
  \<open>k\<close> objects, and \<open>Q n x\<close> holds for the number \<open>n\<close> of objects before.
\<close>

definition allocates :: "nat \<Rightarrow> (nat \<Rightarrow> 'a \<Rightarrow> bool) \<Rightarrow> 'a io \<Rightarrow> bool" where
  "allocates k Q m =
     (\<forall>w. \<exists>new. heap (snd (m w)) = heap w @ new
        \<and> (case fst (m w) of Inl e \<Rightarrow> True
            | Inr x \<Rightarrow> length new = k \<and> Q (length (heap w)) x))"



definition unit_field :: "real list \<Rightarrow> bool" where
  "unit_field u = list_all (\<lambda>x. 0 \<le> x \<and> x \<le> 1) u"

definition gaussian_ok :: "(shape3 \<Rightarrow> real list \<Rightarrow> real \<Rightarrow> real list) \<Rightarrow> bool" where
  "gaussian_ok gaussian =
     (\<forall>sh u sigma. length (gaussian sh u sigma) = length u
        \<and> (unit_field u \<longrightarrow> unit_field (gaussian sh u sigma)))"

section \<open>Masks of the registry\<close>

lemma Act_labels_eq:
  "Act_labels = [(''background'', 0), (''csf'', 16), (''greyMatter'', 32), (''whiteMatter'', 48),
     (''fat'', 64), (''muscle'', 80), (''skin'', 96), (''skull'', 112), (''vessels'', 128),
     (''aroundFat'', 144), (''dura'', 160), (''marrow'', 176)]"
  unfolding Act_labels_def by code_simp

lemma Act_bone_eq: "Act_bone = 240"
  by (simp add: Act_bone_def Act_labels_eq)

lemma getattr_Act_label:
  "map_of Act_labels L = Some k \<Longrightarrow> getattr_cls Act L = Inr (PyInt k)"
  by (auto simp add: getattr_cls_def Act_labels_eq split: if_splits)

lemma label_not_bone: "map_of Act_labels L = Some k \<Longrightarrow> L \<noteq> ''bone''"
  by (auto simp add: Act_labels_eq split: if_splits)

lemma label_code_small: "map_of Act_labels L = Some k \<Longrightarrow> k < 65536"
  by (auto simp add: Act_labels_eq split: if_splits)

lemma label_code_shift: "map_of Act_labels L = Some k \<Longrightarrow> \<exists>i<12. k = push_bit 4 i"
  unfolding Act_labels_def by (auto dest!: map_of_SomeD simp: in_set_zip)

lemma unat_small: "k < 65536 \<Longrightarrow> unat (word_of_nat k :: 16 word) = k"
  by (simp add: unat_of_nat take_bit_nat_eq_self)

text \<open>
  On \<open>uint16\<close> the difference wraps around and its absolute value is the difference
  itself; it is below 1 exactly when it is 0.
\<close>

lemma match_u16:
  assumes "k < 65536"
  shows "(unat (v - word_of_nat k :: 16 word) = 0) = (\<bar>unsigned v - real k\<bar> < 1)"
proof -
  have "(v = word_of_nat k) = (unat v = k)"
    using unat_small[OF assms] by auto
  moreover have "(unat (v - word_of_nat k) = 0) = (v = word_of_nat k)"
    by (simp add: unat_eq_0)
  moreover have "(\<bar>real (unat v) - real k\<bar> < 1) = (unat v = k)"
    by linarith
  ultimately show ?thesis by simp
qed

lemma indices_label:
  assumes "map_of Act_labels L = Some k"
  shows "indices Act im L = Inr (map (\<lambda>x. \<bar>x - real k\<bar> < 1) (values_of im))"
proof (cases im)
  case (IntArr sh vs)
  then show ?thesis
    using assms label_not_bone[OF assms] label_code_small[OF assms]
    by (simp add: indices.simps getattr_Act_label match_u16 comp_def)
next
  case (FltArr p sh xs)
  then show ?thesis
    using assms label_not_bone[OF assms]
    by (simp add: indices.simps getattr_Act_label comp_def)
qed

lemma length_indices_label:
  "map_of Act_labels L = Some k \<Longrightarrow> indices Act im L = Inr m \<Longrightarrow> length m = nelems im"
  by (cases im) (auto simp: indices_label)

lemma np_or3:
  "length s = n \<Longrightarrow> length m = n \<Longrightarrow> length d = n \<Longrightarrow>
   np_gt0 (np_add_bool (np_add_bool s m) d) = map (\<lambda>i. s ! i \<or> m ! i \<or> d ! i) [0..<n]"
  by (auto simp: np_gt0_def np_add_bool_def intro!: nth_equalityI)

text \<open>
  Claim C5. For a base label \<open>L\<close> of the registry, with code \<open>k\<close>, and any volume, the
  mask \<open>Act.indices(im, L)\<close> is true at exactly the voxels whose value \<open>x\<close> satisfies
  \<open>|x - k| < 1\<close>; \<open>k\<close> is what \<open>getattr(Act, L)\<close> gives, and it is \<open>i << 4 = 16 * i\<close> for
  some \<open>i\<close> below 12.
\<close>

theorem indices_base_label:
  assumes "map_of Act_labels L = Some k"
  shows "indices Act im L = Inr (map (\<lambda>x. \<bar>x - real k\<bar> < 1) (values_of im))
         \<and> getattr_cls Act L = Inr (PyInt k)
         \<and> (\<exists>i<12. k = push_bit 4 i \<and> k = 16 * i)"
  using indices_label[OF assms] label_code_shift[OF assms] getattr_Act_label[OF assms]
  by (auto simp: push_bit_eq_mult)

theorem indices_base_label_witness:
  "map_of Act_labels ''csf'' = Some 16
   \<and> indices Act (IntArr (1, 1, 3) [16, 17, 0]) ''csf'' = Inr [True, False, False]"
  using indices_base_label[of "''csf''" 16 "IntArr (1, 1, 3) [16, 17, 0]"]
  by (simp add: Act_labels_eq)

text \<open>
  Claim C2. For every volume the three masks of \<open>skull\<close>, \<open>marrow\<close> and \<open>dura\<close> exist,
  have one entry for each voxel, and the mask of the composite label \<open>bone\<close> is their
  elementwise disjunction.
\<close>

theorem indices_bone_union:
  "\<exists>s m d. indices Act im ''skull'' = Inr s \<and> indices Act im ''marrow'' = Inr m
     \<and> indices Act im ''dura'' = Inr d
     \<and> length s = nelems im \<and> length m = nelems im \<and> length d = nelems im
     \<and> indices Act im ''bone'' = Inr (map (\<lambda>i. s ! i \<or> m ! i \<or> d ! i) [0..<nelems im])"
proof -
  have s: "map_of Act_labels ''skull'' = Some 112"
    and m: "map_of Act_labels ''marrow'' = Some 176"
    and d: "map_of Act_labels ''dura'' = Some 160"
    by (simp_all add: Act_labels_eq)
  obtain ms mm md where e: "indices Act im ''skull'' = Inr ms"
     "indices Act im ''marrow'' = Inr mm" "indices Act im ''dura'' = Inr md"
    using indices_label[OF s] indices_label[OF m] indices_label[OF d] by blast
  have l: "length ms = nelems im" "length mm = nelems im" "length md = nelems im"
    using e length_indices_label[OF s] length_indices_label[OF m] length_indices_label[OF d]
    by blast+
  have "indices Act im ''bone'' = Inr (np_gt0 (np_add_bool (np_add_bool ms mm) md))"
    by (subst indices.simps) (simp add: e)
  then show ?thesis using e l np_or3[OF l] by simp
qed




section \<open>The loops of the profiles\<close>

lemma act_selects_label:
  assumes "map_of Act_labels L = Some k"
  shows "act_selects L v = (unat v = k)"
proof -
  have "(\<bar>real (unat v) - real k\<bar> < 1) = (unat v = k)" by linarith
  then show ?thesis
    by (simp add: act_selects_def indices_label[OF assms])
qed

lemma indices_bone:
  "indices Act im ''bone'' =
     Inr (map (\<lambda>x. \<bar>x - 112\<bar> < 1 \<or> \<bar>x - 176\<bar> < 1 \<or> \<bar>x - 160\<bar> < 1) (values_of im))"
proof -
  have s: "map_of Act_labels ''skull'' = Some 112"
    and m: "map_of Act_labels ''marrow'' = Some 176"
    and d: "map_of Act_labels ''dura'' = Some 160"
    by (simp_all add: Act_labels_eq)
  show ?thesis
    by (subst indices.simps)
       (simp add: indices_label[OF s] indices_label[OF m] indices_label[OF d]
          np_gt0_def np_add_bool_def zip_map_map zip_same_conv_map comp_def)
qed

lemma act_selects_bone:
  "act_selects ''bone'' v = (unat v = 112 \<or> unat v = 176 \<or> unat v = 160)"
proof -
  have "(\<bar>real (unat v) - 112\<bar> < 1) = (unat v = (112::nat))" 
       "(\<bar>real (unat v) - 176\<bar> < 1) = (unat v = (176::nat))"
       "(\<bar>real (unat v) - 160\<bar> < 1) = (unat v = (160::nat))" by linarith+
  then show ?thesis
    by (simp add: act_selects_def indices_bone)
qed

lemma indices_selects:
  assumes "attr = ''bone'' \<or> attr \<in> fst ` set Act_labels"
  shows "indices Act (IntArr sh vs) attr = Inr (map (act_selects attr) vs)"
proof (cases "attr = ''bone''")
  case True
  have "\<And>v. (\<bar>real (unat v) - 112\<bar> < 1 \<or> \<bar>real (unat v) - 176\<bar> < 1 \<or> \<bar>real (unat v) - 160\<bar> < 1)
     = act_selects ''bone'' (v::16 word)"
    unfolding act_selects_bone by linarith
  then show ?thesis using True by (simp add: indices_bone comp_def)
next
  case False
  then obtain k where k: "map_of Act_labels attr = Some k"
    using assms by (metis map_of_eq_None_iff not_Some_eq)
  have "\<And>v::16 word. (\<bar>real (unat v) - real k\<bar> < 1) = act_selects attr v"
    unfolding act_selects_label[OF k] by linarith
  then show ?thesis by (simp add: indices_label[OF k] comp_def)
qed


lemma paintable_D:
  assumes "paintable P attr"
  obtains n where "getattr_cls P attr = Inr (PyInt n)" "written P attr = to_u16 (real n)"
    "attr = ''bone'' \<or> attr \<in> fst ` set Act_labels"
  using assms unfolding paintable_def written_def
  by (auto split: sum.splits pyval.splits)

lemma setitem_IntArr:
  assumes "p < length (heap w)" "heap w ! p = IntArr sh rs" "length m = length rs"
  shows "setitem p m x w =
    (Inr (), w\<lparr>heap := (heap w)[p := IntArr sh (map (\<lambda>(b, v). if b then to_u16 x else v) (zip m rs))]\<rparr>)"
  using assms by (simp add: setitem_def bind_io_def load_def lift_io_def store_def)


lemma paint_Cons_run:
  assumes "im < length (heap w)" "heap w ! im = IntArr sh vs" "res < length (heap w)"
    "heap w ! res = IntArr sh' rs" "length rs = length vs" "paintable P attr"
  shows "\<exists>line. paint tag P im res (attr # names) w =
     paint tag P im res names
       (w\<lparr>heap := (heap w)[res := IntArr sh'
            (map (\<lambda>(v, r). if act_selects attr v then written P attr else r) (zip vs rs))],
          log := log w @ [line]\<rparr>)"
proof -
  obtain n where n: "getattr_cls P attr = Inr (PyInt n)" "written P attr = to_u16 (real n)"
    "attr = ''bone'' \<or> attr \<in> fst ` set Act_labels"
    using assms(6) by (rule paintable_D)
  let ?w1 = "w\<lparr>log := log w @ [tag @ '':'' @ attr @ '':'' @ string_of_nat n]\<rparr>"
  have si: "setitem res (map (act_selects attr) vs) (real n) ?w1 =
    (Inr (), ?w1\<lparr>heap := (heap ?w1)[res := IntArr sh'
        (map (\<lambda>(b, v). if b then to_u16 (real n) else v) (zip (map (act_selects attr) vs) rs))]\<rparr>)"
    by (rule setitem_IntArr) (use assms in simp_all)
  have z: "map (\<lambda>(b, v). if b then to_u16 (real n) else v) (zip (map (act_selects attr) vs) rs)
     = map (\<lambda>(v, r). if act_selects attr v then written P attr else r) (zip vs rs)"
    by (simp add: zip_map1 n(2) case_prod_unfold comp_def)
  have "paint tag P im res (attr # names) w =
     paint tag P im res names
       (w\<lparr>heap := (heap w)[res := IntArr sh'
            (map (\<lambda>(v, r). if act_selects attr v then written P attr else r) (zip vs rs))],
          log := log w @ [tag @ '':'' @ attr @ '':'' @ string_of_nat n]\<rparr>)"
    using assms(1,2) si
    by (cases w)
       (simp add: n(1) bind_io_def lift_io_def log_record_def load_def indices_selects[OF n(3)] z
          del: string_of_nat.simps)
  then show ?thesis by blast
qed

lemma last_write_zip:
  "length rs = length vs \<Longrightarrow>
   map (\<lambda>(v, r). last_write P names v r)
       (zip vs (map (\<lambda>(v, r). if act_selects attr v then written P attr else r) (zip vs rs)))
   = map (\<lambda>(v, r). last_write P (attr # names) v r) (zip vs rs)"
  by (rule nth_equalityI) simp_all

lemma paint_run:
  assumes "im < length (heap w)" "heap w ! im = IntArr sh vs" "res < length (heap w)" "res \<noteq> im"
    "heap w ! res = IntArr sh' rs" "length rs = length vs" "\<forall>attr\<in>set names. paintable P attr"
  shows "\<exists>lg. paint tag P im res names w =
     (Inr (), w\<lparr>heap := (heap w)[res := IntArr sh'
        (map (\<lambda>(v, r). last_write P names v r) (zip vs rs))], log := lg\<rparr>)"
  using assms
proof (induction names arbitrary: w rs)
  case Nil
  have "map (\<lambda>(v, r). r) (zip vs rs) = rs"
    using Nil(6) by (intro nth_equalityI) simp_all
  then have "(heap w)[res := IntArr sh' (map (\<lambda>(v, r). last_write P [] v r) (zip vs rs))] = heap w"
    using Nil(5) by (simp add: list_update_same_conv) (metis list_update_id)
  then have "paint tag P im res [] w = 
    (Inr (), w\<lparr>heap := (heap w)[res := IntArr sh' (map (\<lambda>(v, r). last_write P [] v r) (zip vs rs))],
       log := log w\<rparr>)"
    by (simp add: return_io_def)
  then show ?case by blast
next
  case (Cons attr names)
  let ?rs' = "map (\<lambda>(v, r). if act_selects attr v then written P attr else r) (zip vs rs)"
  obtain line where st: "paint tag P im res (attr # names) w =
     paint tag P im res names (w\<lparr>heap := (heap w)[res := IntArr sh' ?rs'], log := log w @ [line]\<rparr>)"
    using paint_Cons_run[of im w sh vs res sh' rs P attr tag names] Cons.prems by auto
  let ?w' = "w\<lparr>heap := (heap w)[res := IntArr sh' ?rs'], log := log w @ [line]\<rparr>"
  have "\<exists>lg. paint tag P im res names ?w' =
     (Inr (), ?w'\<lparr>heap := (heap ?w')[res := IntArr sh'
        (map (\<lambda>(v, r). last_write P names v r) (zip vs ?rs'))], log := lg\<rparr>)"
    by (rule Cons.IH) (use Cons.prems in simp_all)
  then show ?case
    unfolding st using Cons.prems(6) by (simp add: last_write_zip del: last_write.simps)
qed

lemma attrs_Pet: "attrs_of Pet = Inr [''whiteMatter'', ''greyMatter'', ''skin'']"
  by (simp add: attrs_of_def getattr_cls_def Let_def)

lemma attrs_T1: "attrs_of T1 = Inr [''whiteMatter'', ''greyMatter'', ''skin'', ''skull'', ''marrow'',
                          ''bone'', ''csf'']"
  by (simp add: attrs_of_def getattr_cls_def)

lemma attrs_T2: "attrs_of T2 = Inr [''whiteMatter'', ''greyMatter'', ''skin'', ''skull'', ''marrow'',
                          ''bone'', ''csf'']"
  by (simp add: attrs_of_def getattr_cls_def)


lemma paintable_Pet: "\<forall>attr\<in>set [''whiteMatter'', ''greyMatter'', ''skin'']. paintable Pet attr"
  by (simp add: paintable_def getattr_cls_def Act_labels_eq Let_def)

lemma paintable_T1: "\<forall>attr\<in>set [''whiteMatter'', ''greyMatter'', ''skin'', ''skull'', ''marrow'',
                          ''bone'', ''csf'']. paintable T1 attr"
  by (simp add: paintable_def getattr_cls_def Act_labels_eq)

lemma paintable_T2: "\<forall>attr\<in>set [''whiteMatter'', ''greyMatter'', ''skin'', ''skull'', ''marrow'',
                          ''bone'', ''csf'']. paintable T2 attr"
  by (simp add: paintable_def getattr_cls_def Act_labels_eq)

lemma paintable_attrs:
  assumes "P = Pet \<or> P = T1 \<or> P = T2" "attrs_of P = Inr names"
  shows "\<forall>attr\<in>set names. paintable P attr"
  using assms paintable_Pet paintable_T1 paintable_T2
  unfolding attrs_Pet attrs_T1 attrs_T2 by (elim disjE) (simp_all only: attrs_Pet attrs_T1 attrs_T2 sum.inject)


lemma profile_volume_run:
  assumes "im < length (heap w)" "heap w ! im = IntArr sh vs" "attrs_of P = Inr names"
    "\<forall>attr\<in>set names. paintable P attr"
  shows "\<exists>lg. profile_volume tag P im w =
     (Inr (length (heap w)),
      w\<lparr>heap := heap w @ [IntArr sh (map (\<lambda>v. last_write P names v 0) vs)], log := lg\<rparr>)"
proof -
  let ?w1 = "w\<lparr>heap := heap w @ [IntArr sh (map (\<lambda>v. 0) vs)]\<rparr>"
  have z: "map (\<lambda>(v, r). last_write P names v r) (zip vs (map (\<lambda>v. 0) vs))
     = map (\<lambda>v. last_write P names v 0) vs"
    by (rule nth_equalityI) simp_all
  have "\<exists>lg. paint tag P im (length (heap w)) names ?w1 =
     (Inr (), ?w1\<lparr>heap := (heap ?w1)[length (heap w) := IntArr sh
        (map (\<lambda>(v, r). last_write P names v r) (zip vs (map (\<lambda>v. 0) vs)))], log := lg\<rparr>)"
    by (rule paint_run) (use assms in \<open>simp_all add: nth_append\<close>)
  then obtain lg where "paint tag P im (length (heap w)) names ?w1 =
     (Inr (), w\<lparr>heap := heap w @ [IntArr sh (map (\<lambda>v. last_write P names v 0) vs)], log := lg\<rparr>)"
    unfolding z by auto
  then have "profile_volume tag P im w =
     (Inr (length (heap w)),
      w\<lparr>heap := heap w @ [IntArr sh (map (\<lambda>v. last_write P names v 0) vs)], log := lg\<rparr>)"
    using assms(1,2,3)
    by (simp add: profile_volume_def bind_io_def load_def alloc_def lift_io_def return_io_def)
  then show ?thesis by blast
qed






text \<open>
  Claim C6. For each profile the painted volume holds, at every voxel, the value of the
  last name of \<open>attrs\<close> whose mask selects the voxel, and 0 where none does: the mask is
  that of \<open>Act.indices\<close>, computed from the codes of \<open>Act\<close>, and the value written is the
  profile's. So \<open>greyMatter\<close> selects the voxels with \<open>|v - 32| < 1\<close> while the PET loop
  writes 128 there, and the 16 that the PET loop writes for \<open>skin\<close> is the code of \<open>csf\<close>
  in \<open>Act\<close>.
\<close>

theorem profile_volume_selection:
  assumes "P = Pet \<or> P = T1 \<or> P = T2" "im < length (heap w)" "heap w ! im = IntArr sh vs"
  shows "\<exists>names lg. attrs_of P = Inr names
     \<and> profile_volume tag P im w =
        (Inr (length (heap w)),
         w\<lparr>heap := heap w @ [IntArr sh (map (\<lambda>v. last_write P names v 0) vs)], log := lg\<rparr>)
     \<and> list_all (\<lambda>attr. indices Act (IntArr sh vs) attr = Inr (map (act_selects attr) vs)) names
     \<and> act_selects ''greyMatter'' v = (\<bar>real (unat v) - 32\<bar> < 1)
     \<and> written Pet ''greyMatter'' = 128
     \<and> written Pet ''skin'' = 16 \<and> getattr_cls Act ''csf'' = Inr (PyInt 16)"
proof -
  obtain names where n: "attrs_of P = Inr names"
    using assms(1) attrs_Pet attrs_T1 attrs_T2 by blast
  have p: "\<forall>attr\<in>set names. paintable P attr"
    using paintable_attrs[OF assms(1) n] .
  obtain lg where r: "profile_volume tag P im w =
        (Inr (length (heap w)),
         w\<lparr>heap := heap w @ [IntArr sh (map (\<lambda>v. last_write P names v 0) vs)], log := lg\<rparr>)"
    using profile_volume_run[OF assms(2,3) n p] by blast
  have m: "list_all (\<lambda>attr. indices Act (IntArr sh vs) attr = Inr (map (act_selects attr) vs)) names"
    unfolding list_all_iff using p by (auto simp: paintable_def intro!: indices_selects)
  have g: "map_of Act_labels ''greyMatter'' = Some 32" "map_of Act_labels ''csf'' = Some 16"
    by (simp_all add: Act_labels_eq)
  have e1: "act_selects ''greyMatter'' v = (\<bar>real (unat v) - 32\<bar> < 1)"
    unfolding act_selects_label[OF g(1)] by linarith
  have e2: "written Pet ''greyMatter'' = 128" "written Pet ''skin'' = 16"
    by (simp_all add: written_def getattr_cls_def to_u16_def trunc_def Let_def)
  show ?thesis
    using n r m e1 e2 getattr_Act_label[OF g(2)] by blast
qed

lemma act_selects_eval:
  "act_selects ''whiteMatter'' v = (unat v = 48)"
  "act_selects ''greyMatter'' v = (unat v = 32)"
  "act_selects ''skin'' v = (unat v = 96)"
  "act_selects ''skull'' v = (unat v = 112)"
  "act_selects ''marrow'' v = (unat v = 176)"
  "act_selects ''csf'' v = (unat v = 16)"
  by (simp_all add: act_selects_label Act_labels_eq)

lemma written_eval:
  "written Pet ''whiteMatter'' = 32" "written Pet ''greyMatter'' = 128" "written Pet ''skin'' = 16"
  "written T1 ''whiteMatter'' = 154" "written T1 ''greyMatter'' = 106" "written T1 ''skin'' = 92"
  "written T1 ''skull'' = 48" "written T1 ''marrow'' = 180" "written T1 ''bone'' = 48"
  "written T1 ''csf'' = 48"
  "written T2 ''whiteMatter'' = 70" "written T2 ''greyMatter'' = 100" "written T2 ''skin'' = 70"
  "written T2 ''skull'' = 100" "written T2 ''marrow'' = 250" "written T2 ''bone'' = 200"
  "written T2 ''csf'' = 250"
  by (simp_all add: written_def getattr_cls_def to_u16_def trunc_def Let_def)

theorem profile_volume_selection_witness:
  "fst (profile_volume ''PET'' Pet 0
          \<lparr>heap = [IntArr (1, 1, 6) [32, 128, 16, 96, 48, 0]], log = [], rng = 0\<rparr>) = Inr 1
   \<and> heap (snd (profile_volume ''PET'' Pet 0
          \<lparr>heap = [IntArr (1, 1, 6) [32, 128, 16, 96, 48, 0]], log = [], rng = 0\<rparr>)) =
       [IntArr (1, 1, 6) [32, 128, 16, 96, 48, 0], IntArr (1, 1, 6) [128, 0, 0, 16, 32, 0]]"
  using profile_volume_selection[of Pet 0
     "\<lparr>heap = [IntArr (1, 1, 6) [32, 128, 16, 96, 48, 0]], log = [], rng = 0\<rparr>"
     "(1, 1, 6)" "[32, 128, 16, 96, 48, 0]" "''PET''" 0]
  by (auto simp: attrs_Pet act_selects_eval written_eval)

lemma last_write_filter:
  "last_write P names v r =
     (case filter (\<lambda>a. act_selects a v) names of [] \<Rightarrow> r | a # s \<Rightarrow> written P (last (a # s)))"
proof (induction names arbitrary: r)
  case Nil
  then show ?case by simp
next
  case (Cons a names)
  then show ?case by (simp split: list.splits)
qed

lemma last_filter_unique:
  assumes "distinct names" "x \<in> set names" "Q x"
    "\<forall>y\<in>set names. Q y \<and> y \<noteq> x \<longrightarrow> y \<notin> set (dropWhile (\<lambda>a. a \<noteq> x) names)"
  shows "filter Q names \<noteq> [] \<and> last (filter Q names) = x"
proof -
  obtain pre post where sp: "names = pre @ x # post" "x \<notin> set pre"
    using assms(2) by (meson split_list_first)
  have dw: "dropWhile (\<lambda>a. a \<noteq> x) names = x # post"
    unfolding sp(1) using sp(2) by (auto simp add: dropWhile_append3)
  have "\<forall>y\<in>set post. \<not> Q y"
  proof
    fix y assume y: "y \<in> set post"
    then have "y \<noteq> x" using assms(1) sp(1) by auto
    moreover have "y \<in> set names" using y sp(1) by simp
    ultimately show "\<not> Q y" using assms(4) dw y by auto
  qed
  then have "filter Q post = []" by (simp add: filter_empty_conv)
  then show ?thesis unfolding sp(1) using assms(3) by simp
qed

lemma label_inj:
  "map_of Act_labels a = Some k \<Longrightarrow> map_of Act_labels b = Some k \<Longrightarrow> a = b"
  unfolding Act_labels_eq by (simp split: if_splits)


lemma label_code_of:
  assumes "a \<in> fst ` set Act_labels"
  obtains k where "map_of Act_labels a = Some k"
  using assms by (metis map_of_eq_None_iff not_Some_eq)

lemma selected_last:
  assumes "distinct xs" "set xs \<subseteq> insert ''bone'' (fst ` set Act_labels)" "''dura'' \<notin> set xs"
     "''skull'' \<notin> set (from_bone xs)" "''marrow'' \<notin> set (from_bone xs)"
     "x \<in> set xs" "act_selects x v"
     "x = ''bone'' \<or> \<not> (''bone'' \<in> set xs \<and> act_selects ''bone'' v)"
  shows "filter (\<lambda>a. act_selects a v) xs \<noteq> [] \<and> last (filter (\<lambda>a. act_selects a v) xs) = x"
proof (rule last_filter_unique[where Q = "\<lambda>a. act_selects a v", OF assms(1) assms(6) assms(7)],
    intro ballI impI)
  fix y assume y: "y \<in> set xs" "act_selects y v \<and> y \<noteq> x"
  show "y \<notin> set (dropWhile (\<lambda>a. a \<noteq> x) xs)"
  proof (cases "x = ''bone''")
    case True
    then have "y \<noteq> ''bone''" using y by simp
    then have "y \<in> fst ` set Act_labels" using y(1) assms(2) by auto
    then obtain k where k: "map_of Act_labels y = Some k" by (rule label_code_of)
    then have kv: "unat v = k" using y(2) by (simp add: act_selects_label)
    have "unat v = 112 \<or> unat v = 176 \<or> unat v = 160"
      using assms(7) True by (simp add: act_selects_bone)
    then have "y = ''skull'' \<or> y = ''marrow'' \<or> y = ''dura''"
      using k kv label_inj[of y k "''skull''"] label_inj[of y k "''marrow''"]
        label_inj[of y k "''dura''"]
      by (auto simp: Act_labels_eq)
    then show ?thesis
      using assms(3,4,5) y(1) True by (auto simp: from_bone_def)
  next
    case False
    then have nb: "\<not> (''bone'' \<in> set xs \<and> act_selects ''bone'' v)" using assms(8) by simp
    then have "y \<noteq> ''bone''" using y by auto
    then have "y \<in> fst ` set Act_labels" using y(1) assms(2) by auto
    then obtain k where k: "map_of Act_labels y = Some k" by (rule label_code_of)
    have "x \<in> fst ` set Act_labels" using False assms(2,6) by auto
    then obtain k' where k': "map_of Act_labels x = Some k'" by (rule label_code_of)
    have "k = k'" using k k' y(2) assms(7) by (simp add: act_selects_label)
    then have "y = x" using label_inj k k' by blast
    then show ?thesis using y(2) by simp
  qed
qed

lemma last_write_perm:
  assumes "distinct xs" "distinct ys" "set xs = set ys"
     "set xs \<subseteq> insert ''bone'' (fst ` set Act_labels)" "''dura'' \<notin> set xs"
     "''skull'' \<notin> set (from_bone xs)" "''marrow'' \<notin> set (from_bone xs)"
     "''skull'' \<notin> set (from_bone ys)" "''marrow'' \<notin> set (from_bone ys)"
  shows "last_write P xs v r = last_write P ys v r"
proof (cases "\<exists>x\<in>set xs. act_selects x v")
  case True
  then obtain x1 where x1: "x1 \<in> set xs" "act_selects x1 v" by blast
  define x where "x = (if ''bone'' \<in> set xs \<and> act_selects ''bone'' v then ''bone'' else x1)"
  have x: "x \<in> set xs" "act_selects x v"
     "x = ''bone'' \<or> \<not> (''bone'' \<in> set xs \<and> act_selects ''bone'' v)"
    using x1 by (auto simp: x_def)
  have a: "filter (\<lambda>a. act_selects a v) xs \<noteq> [] \<and> last (filter (\<lambda>a. act_selects a v) xs) = x"
    by (rule selected_last[OF assms(1,4,5,6,7) x])
  have b: "filter (\<lambda>a. act_selects a v) ys \<noteq> [] \<and> last (filter (\<lambda>a. act_selects a v) ys) = x"
    by (rule selected_last[OF assms(2)]) (use assms x in auto)
  have "last_write P xs v r = written P x"
    using a by (auto simp: last_write_filter split: list.splits)
  moreover have "last_write P ys v r = written P x"
    using b by (auto simp: last_write_filter split: list.splits)
  ultimately show ?thesis by simp
next
  case False
  then have "filter (\<lambda>a. act_selects a v) xs = []" "filter (\<lambda>a. act_selects a v) ys = []"
    using assms(3) by (auto simp: filter_empty_conv)
  then show ?thesis by (simp add: last_write_filter)
qed

lemma paint_heap:
  assumes "im < length (heap w)" "heap w ! im = IntArr sh vs" "res < length (heap w)" "res \<noteq> im"
    "heap w ! res = IntArr sh' rs" "length rs = length vs" "\<forall>attr\<in>set names. paintable P attr"
  shows "fst (paint tag P im res names w) = Inr ()"
    and "heap (snd (paint tag P im res names w)) =
           (heap w)[res := IntArr sh' (map (\<lambda>(v, r). last_write P names v r) (zip vs rs))]"
  using paint_run[OF assms, of tag] by auto

lemma attrs_cases:
  assumes "P = Pet \<or> P = T1 \<or> P = T2" "attrs_of P = Inr attrs"
  shows "distinct attrs \<and> set attrs \<subseteq> insert ''bone'' (fst ` set Act_labels)
     \<and> ''dura'' \<notin> set attrs \<and> ''skull'' \<notin> set (from_bone attrs)
     \<and> ''marrow'' \<notin> set (from_bone attrs)"
  using assms(1)
proof (elim disjE)
  assume "P = Pet"
  then have "attrs = [''whiteMatter'', ''greyMatter'', ''skin'']"
    using assms(2) by (simp add: attrs_Pet)
  then show ?thesis by (simp add: from_bone_def Act_labels_eq)
next
  assume "P = T1"
  then have "attrs = [''whiteMatter'', ''greyMatter'', ''skin'', ''skull'', ''marrow'', ''bone'', ''csf'']"
    using assms(2) by (simp add: attrs_T1)
  then show ?thesis by (simp add: from_bone_def Act_labels_eq)
next
  assume "P = T2"
  then have "attrs = [''whiteMatter'', ''greyMatter'', ''skin'', ''skull'', ''marrow'', ''bone'', ''csf'']"
    using assms(2) by (simp add: attrs_T2)
  then show ?thesis by (simp add: from_bone_def Act_labels_eq)
qed

lemma base_regions_disjoint:
  assumes "a \<in> insert ''bone'' (fst ` set Act_labels)" "b \<in> insert ''bone'' (fst ` set Act_labels)"
    "a \<noteq> b" "a \<noteq> ''bone''" "b \<noteq> ''bone''"
  shows "\<not> (act_selects a v \<and> act_selects b v)"
proof -
  obtain k where k: "map_of Act_labels a = Some k"
    using assms(1,4) label_code_of by auto
  obtain k' where k': "map_of Act_labels b = Some k'"
    using assms(2,5) label_code_of by auto
  show ?thesis
    using label_inj[of a k b] k k' assms(3) by (auto simp: act_selects_label)
qed

text \<open>
  Claim C3, amended. For each profile and labelled volume, the regions selected for two
  different names of \<open>attrs\<close> are disjoint when neither is the composite \<open>bone\<close>, and the
  loop gives the same volume for every ordering of \<open>attrs\<close> that paints neither \<open>skull\<close>
  nor \<open>marrow\<close> after \<open>bone\<close>; for \<open>Pet\<close>, whose \<open>attrs\<close> have no \<open>bone\<close>, that is every
  ordering.
\<close>

theorem paint_order:
  assumes "P = Pet \<or> P = T1 \<or> P = T2" "attrs_of P = Inr attrs" "mset names = mset attrs"
    "''skull'' \<notin> set (from_bone names)" "''marrow'' \<notin> set (from_bone names)"
    "im < length (heap w)" "heap w ! im = IntArr sh vs" "res < length (heap w)" "res \<noteq> im"
    "heap w ! res = IntArr sh' rs" "length rs = length vs"
  shows "fst (paint tag P im res names w) = Inr ()
     \<and> fst (paint tag P im res attrs w) = Inr ()
     \<and> heap (snd (paint tag P im res names w)) = heap (snd (paint tag P im res attrs w))
     \<and> (\<forall>a\<in>set attrs. \<forall>b\<in>set attrs. a \<noteq> b \<and> a \<noteq> ''bone'' \<and> b \<noteq> ''bone''
           \<longrightarrow> \<not> (act_selects a v \<and> act_selects b v))"
proof -
  have A: "distinct attrs" "set attrs \<subseteq> insert ''bone'' (fst ` set Act_labels)"
     "''dura'' \<notin> set attrs" "''skull'' \<notin> set (from_bone attrs)"
     "''marrow'' \<notin> set (from_bone attrs)"
    using attrs_cases[OF assms(1,2)] by simp_all
  have N: "distinct names" "set names = set attrs"
    using assms(3) A(1) by (metis mset_eq_imp_distinct_iff, metis mset_eq_setD)
  have pa: "\<forall>attr\<in>set attrs. paintable P attr"
    by (rule paintable_attrs[OF assms(1,2)])
  then have pn: "\<forall>attr\<in>set names. paintable P attr"
    using N(2) by simp
  have lw: "\<And>v r. last_write P names v r = last_write P attrs v r"
    by (rule last_write_perm) (use A N assms(4,5) in auto)
  have d: "\<forall>a\<in>set attrs. \<forall>b\<in>set attrs. a \<noteq> b \<and> a \<noteq> ''bone'' \<and> b \<noteq> ''bone''
           \<longrightarrow> \<not> (act_selects a v \<and> act_selects b v)"
    using A(2) base_regions_disjoint by (meson subsetD)
  show ?thesis
    using paint_heap[OF assms(6-11) pn, of tag] paint_heap[OF assms(6-11) pa, of tag] d
    by (simp add: lw)
qed

theorem paint_order_witness:
  "attrs_of T1 = Inr [''whiteMatter'', ''greyMatter'', ''skin'', ''skull'', ''marrow'', ''bone'', ''csf'']
   \<and> mset [''skull'', ''greyMatter'', ''csf'', ''whiteMatter'', ''marrow'', ''bone'', ''skin'']
       = mset [''whiteMatter'', ''greyMatter'', ''skin'', ''skull'', ''marrow'', ''bone'', ''csf'']
   \<and> fst (paint ''T1'' T1 0 1
        [''skull'', ''greyMatter'', ''csf'', ''whiteMatter'', ''marrow'', ''bone'', ''skin'']
        \<lparr>heap = [IntArr (1, 1, 4) [176, 112, 48, 0], IntArr (1, 1, 4) [0, 0, 0, 0]],
         log = [], rng = 0\<rparr>) = Inr ()
   \<and> heap (snd (paint ''T1'' T1 0 1
        [''skull'', ''greyMatter'', ''csf'', ''whiteMatter'', ''marrow'', ''bone'', ''skin'']
        \<lparr>heap = [IntArr (1, 1, 4) [176, 112, 48, 0], IntArr (1, 1, 4) [0, 0, 0, 0]],
         log = [], rng = 0\<rparr>))
     = heap (snd (paint ''T1'' T1 0 1
        [''whiteMatter'', ''greyMatter'', ''skin'', ''skull'', ''marrow'', ''bone'', ''csf'']
        \<lparr>heap = [IntArr (1, 1, 4) [176, 112, 48, 0], IntArr (1, 1, 4) [0, 0, 0, 0]],
         log = [], rng = 0\<rparr>))"
  using paint_order[of T1
     "[''whiteMatter'', ''greyMatter'', ''skin'', ''skull'', ''marrow'', ''bone'', ''csf'']"
     "[''skull'', ''greyMatter'', ''csf'', ''whiteMatter'', ''marrow'', ''bone'', ''skin'']"
     0 "\<lparr>heap = [IntArr (1, 1, 4) [176, 112, 48, 0], IntArr (1, 1, 4) [0, 0, 0, 0]],
         log = [], rng = 0\<rparr>" "(1, 1, 4)" "[176, 112, 48, 0]" 1 "(1, 1, 4)" "[0, 0, 0, 0]"
     "''T1''" 0]
  by (simp add: attrs_T1 from_bone_def)

text \<open>
  Claim C3, as stated, fails for \<open>T1\<close>: a voxel of code 176 lies in the regions of both
  \<open>marrow\<close> and \<open>bone\<close>, and the loop leaves 48 there in the order of \<open>attrs\<close> but 180 when
  \<open>marrow\<close> is painted after \<open>bone\<close>.
\<close>

theorem paint_order_counterexample:
  "attrs_of T1 = Inr [''whiteMatter'', ''greyMatter'', ''skin'', ''skull'', ''marrow'', ''bone'', ''csf'']
   \<and> indices Act (IntArr (1, 1, 1) [176]) ''marrow'' = Inr [True]
   \<and> indices Act (IntArr (1, 1, 1) [176]) ''bone'' = Inr [True]
   \<and> mset [''whiteMatter'', ''greyMatter'', ''skin'', ''skull'', ''bone'', ''marrow'', ''csf'']
       = mset [''whiteMatter'', ''greyMatter'', ''skin'', ''skull'', ''marrow'', ''bone'', ''csf'']
   \<and> heap (snd (paint ''T1'' T1 0 1
        [''whiteMatter'', ''greyMatter'', ''skin'', ''skull'', ''marrow'', ''bone'', ''csf'']
        \<lparr>heap = [IntArr (1, 1, 1) [176], IntArr (1, 1, 1) [0]], log = [], rng = 0\<rparr>))
       = [IntArr (1, 1, 1) [176], IntArr (1, 1, 1) [48]]
   \<and> heap (snd (paint ''T1'' T1 0 1
        [''whiteMatter'', ''greyMatter'', ''skin'', ''skull'', ''bone'', ''marrow'', ''csf'']
        \<lparr>heap = [IntArr (1, 1, 1) [176], IntArr (1, 1, 1) [0]], log = [], rng = 0\<rparr>))
       = [IntArr (1, 1, 1) [176], IntArr (1, 1, 1) [180]]"
proof -
  let ?w = "\<lparr>heap = [IntArr (1, 1, 1) [176], IntArr (1, 1, 1) [0]], log = [], rng = 0\<rparr>"
  let ?a = "[''whiteMatter'', ''greyMatter'', ''skin'', ''skull'', ''marrow'', ''bone'', ''csf'']"
  let ?b = "[''whiteMatter'', ''greyMatter'', ''skin'', ''skull'', ''bone'', ''marrow'', ''csf'']"
  have pa: "\<forall>attr\<in>set ?a. paintable T1 attr" by (rule paintable_T1)
  have pb: "\<forall>attr\<in>set ?b. paintable T1 attr" using paintable_T1 by simp
  have sel: "act_selects ''marrow'' 176" "act_selects ''bone'' 176"
    "\<not> act_selects ''whiteMatter'' 176" "\<not> act_selects ''greyMatter'' 176"
    "\<not> act_selects ''skin'' 176" "\<not> act_selects ''skull'' 176" "\<not> act_selects ''csf'' 176"
    by (simp_all add: act_selects_eval act_selects_bone)
  have "heap (snd (paint ''T1'' T1 0 1 ?a ?w)) = [IntArr (1, 1, 1) [176], IntArr (1, 1, 1) [48]]"
    by (subst paint_heap(2)[where sh = "(1, 1, 1)" and vs = "[176]" and sh' = "(1, 1, 1)" and rs = "[0]"])
       (simp_all add: pa sel written_eval del: set_simps)
  moreover
  have "heap (snd (paint ''T1'' T1 0 1 ?b ?w)) = [IntArr (1, 1, 1) [176], IntArr (1, 1, 1) [180]]"
    by (subst paint_heap(2)[where sh = "(1, 1, 1)" and vs = "[176]" and sh' = "(1, 1, 1)" and rs = "[0]"])
       (simp_all add: pb sel written_eval del: set_simps)
  moreover have "indices Act (IntArr (1, 1, 1) [176]) ''marrow'' = Inr [True]"
     "indices Act (IntArr (1, 1, 1) [176]) ''bone'' = Inr [True]"
    using sel(1,2) by (simp_all add: act_selects_def)
  ultimately show ?thesis by (simp add: attrs_T1)
qed

section \<open>Noise\<close>

lemma length_values_of: "length (values_of a) = nelems a"
  by (cases a) simp_all

lemma noise_early:
  assumes "n \<le> 0"
  shows "noise gaussian uniform im n warn_zero sigma w =
     (if n < 0 then Inl ValueError else Inr im,
      w\<lparr>log := log w @ (if n = 0 \<and> warn_zero then [''zero noise''] else [])\<rparr>)"
  using assms
  by (simp add: noise_def raise_io_def bind_io_def log_record_def return_io_def)

text \<open>
  Claim C8. For \<open>n < 0\<close> the call raises ValueError, and for \<open>n = 0\<close> it returns its
  argument, the very object it was given; in both cases the store of arrays, and with
  it the input array, is as before and the generator's position has not moved. (With
  \<open>n = 0\<close> and \<open>warn_zero\<close> the logger gets one record.)
\<close>

theorem noise_before_draw:
  assumes "n \<le> 0"
  shows "fst (noise gaussian uniform im n warn_zero sigma w) =
           (if n < 0 then Inl ValueError else Inr im)
     \<and> heap (snd (noise gaussian uniform im n warn_zero sigma w)) = heap w
     \<and> rng (snd (noise gaussian uniform im n warn_zero sigma w)) = rng w
     \<and> log (snd (noise gaussian uniform im n warn_zero sigma w)) =
         log w @ (if n = 0 \<and> warn_zero then [''zero noise''] else [])"
  by (simp add: noise_early[OF assms])

theorem noise_before_draw_witness:
  "noise (\<lambda>sh u sigma. u) (\<lambda>k. 1 / 2) 0 (- 1) True 1
      \<lparr>heap = [FltArr single (1, 1, 2) [3, 4]], log = [], rng = 7\<rparr>
     = (Inl ValueError, \<lparr>heap = [FltArr single (1, 1, 2) [3, 4]], log = [], rng = 7\<rparr>)
   \<and> noise (\<lambda>sh u sigma. u) (\<lambda>k. 1 / 2) 0 0 True 1
      \<lparr>heap = [FltArr single (1, 1, 2) [3, 4]], log = [], rng = 7\<rparr>
     = (Inr 0, \<lparr>heap = [FltArr single (1, 1, 2) [3, 4]], log = [''zero noise''], rng = 7\<rparr>)"
  using noise_before_draw[of "- 1" "\<lambda>sh u sigma. u" "\<lambda>k. 1 / 2" 0 True 1
      "\<lparr>heap = [FltArr single (1, 1, 2) [3, 4]], log = [], rng = 7\<rparr>"]
    noise_before_draw[of 0 "\<lambda>sh u sigma. u" "\<lambda>k. 1 / 2" 0 True 1
      "\<lparr>heap = [FltArr single (1, 1, 2) [3, 4]], log = [], rng = 7\<rparr>"]
  by (auto simp: prod_eq_iff world.equality)

lemma noise_run:
  assumes "0 < n" "im < length (heap w)" "heap w ! im = a" "nelems a = elements (shape_of a)"
    "length (gaussian (shape_of a) (map uniform [rng w..<rng w + elements (shape_of a)]) sigma)
       = elements (shape_of a)"
  shows "noise gaussian uniform im n warn_zero sigma w =
     (Inr (length (heap w)),
      w\<lparr>rng := rng w + elements (shape_of a),
        heap := heap w @ [FltArr double (shape_of a)
          (map (\<lambda>(x, y). x * y) (zip (values_of a)
             (map (\<lambda>x. 1 + n * (2 * x - 1))
                (gaussian (shape_of a) (map uniform [rng w..<rng w + elements (shape_of a)]) sigma))))]\<rparr>)"
  using assms
  by (simp add: noise_def bind_io_def load_def rand_def lift_io_def np_mul_def alloc_def Let_def)


lemma scaled_ratio:
  fixes x n s :: real
  assumes "0 < n" "- 1 \<le> s" "s \<le> 1" "x \<noteq> 0"
  shows "1 - n \<le> x * (1 + n * s) / x \<and> x * (1 + n * s) / x \<le> 1 + n"
proof -
  have "x * (1 + n * s) / x = 1 + n * s" using assms(4) by simp
  moreover have "- n \<le> n * s" "n * s \<le> n"
    using mult_left_mono[of "- 1" s n] mult_left_mono[of s 1 n] assms(1,2,3) by simp_all
  ultimately show ?thesis by simp
qed

text \<open>
  Claim C9. For \<open>n > 0\<close>, a stream of draws between 0 and 1 and a smoothing filter that
  keeps such a field between 0 and 1, the call returns a new array in which every voxel
  is the input voxel times \<open>1 + n * s\<close> for some \<open>s\<close> between \<open>-1\<close> and 1; so the ratio of
  output to input is between \<open>1 - n\<close> and \<open>1 + n\<close> wherever the input is not zero. Numbers
  are real here: the rounding of floating-point arithmetic is not part of the model.
\<close>

theorem noise_bounds:
  assumes "0 < n" "gaussian_ok gaussian" "\<forall>k. 0 \<le> uniform k \<and> uniform k \<le> 1"
     "im < length (heap w)" "heap w ! im = a" "nelems a = elements (shape_of a)"
  shows "\<exists>out. fst (noise gaussian uniform im n warn_zero sigma w) = Inr (length (heap w))
      \<and> heap (snd (noise gaussian uniform im n warn_zero sigma w))
          = heap w @ [FltArr double (shape_of a) out]
      \<and> list_all2 (\<lambda>y x. (\<exists>s. - 1 \<le> s \<and> s \<le> 1 \<and> y = x * (1 + n * s))
                       \<and> (x \<noteq> 0 \<longrightarrow> 1 - n \<le> y / x \<and> y / x \<le> 1 + n))
           out (values_of a)"
proof -
  let ?u = "map uniform [rng w..<rng w + elements (shape_of a)]"
  let ?r = "gaussian (shape_of a) ?u sigma"
  let ?out = "map (\<lambda>(x, y). x * y) (zip (values_of a) (map (\<lambda>x. 1 + n * (2 * x - 1)) ?r))"
  have uf: "unit_field ?u"
    using assms(3) by (simp add: unit_field_def list_all_iff)
  have "length ?r = length ?u"
    using assms(2) unfolding gaussian_ok_def by blast
  then have lr: "length ?r = elements (shape_of a)"
    by simp
  have ur: "unit_field ?r"
    using assms(2) uf unfolding gaussian_ok_def by blast
  have run: "noise gaussian uniform im n warn_zero sigma w =
     (Inr (length (heap w)),
      w\<lparr>rng := rng w + elements (shape_of a),
        heap := heap w @ [FltArr double (shape_of a) ?out]\<rparr>)"
    by (rule noise_run[where gaussian = gaussian and uniform = uniform and sigma = sigma])
       (use assms(1,4,5,6) lr in simp_all)
  have lo: "length ?out = length (values_of a)"
    using lr assms(6) by (simp add: length_values_of)
  have "list_all2 (\<lambda>y x. (\<exists>s. - 1 \<le> s \<and> s \<le> 1 \<and> y = x * (1 + n * s))
                       \<and> (x \<noteq> 0 \<longrightarrow> 1 - n \<le> y / x \<and> y / x \<le> 1 + n))
           ?out (values_of a)"
  proof (rule list_all2_all_nthI[OF lo])
    fix i assume "i < length ?out"
    then have i: "i < length (values_of a)" "i < length ?r"
      using lo lr assms(6) by (simp_all add: length_values_of)
    let ?s = "2 * (?r ! i) - 1"
    have "0 \<le> ?r ! i \<and> ?r ! i \<le> 1"
      using ur i(2) unfolding unit_field_def list_all_length by blast
    then have s: "- 1 \<le> ?s" "?s \<le> 1" by simp_all
    have o: "?out ! i = values_of a ! i * (1 + n * ?s)"
      using i by simp
    show "(\<exists>s. - 1 \<le> s \<and> s \<le> 1 \<and> ?out ! i = values_of a ! i * (1 + n * s))
        \<and> (values_of a ! i \<noteq> 0 \<longrightarrow>
              1 - n \<le> ?out ! i / values_of a ! i \<and> ?out ! i / values_of a ! i \<le> 1 + n)"
      unfolding o using s scaled_ratio[OF assms(1) s] by blast
  qed
  then show ?thesis unfolding run by auto
qed

theorem noise_bounds_witness:
  "gaussian_ok (\<lambda>sh u sigma. u)
   \<and> noise (\<lambda>sh u sigma. u) (\<lambda>k. if even k then 0 else 1 / 4) 0 (1 / 2) True 1
      \<lparr>heap = [IntArr (1, 1, 2) [80, 0]], log = [], rng = 2\<rparr>
     = (Inr 1, \<lparr>heap = [IntArr (1, 1, 2) [80, 0], FltArr double (1, 1, 2) [40, 0]],
                log = [], rng = 4\<rparr>)"
proof -
  have g: "gaussian_ok (\<lambda>sh u sigma. u)" by (simp add: gaussian_ok_def)
  have u: "\<forall>k::nat. 0 \<le> (if even k then 0 else 1 / 4 :: real) \<and> (if even k then 0 else 1 / 4 :: real) \<le> 1"
    by simp
  have "\<exists>out. fst (noise (\<lambda>sh u sigma. u) (\<lambda>k. if even k then 0 else 1 / 4) 0 (1 / 2) True 1
           \<lparr>heap = [IntArr (1, 1, 2) [80, 0]], log = [], rng = 2\<rparr>) = Inr 1
      \<and> heap (snd (noise (\<lambda>sh u sigma. u) (\<lambda>k. if even k then 0 else 1 / 4) 0 (1 / 2) True 1
           \<lparr>heap = [IntArr (1, 1, 2) [80, 0]], log = [], rng = 2\<rparr>))
          = [IntArr (1, 1, 2) [80, 0], FltArr double (1, 1, 2) out]"
    using noise_bounds[of "1 / 2" "\<lambda>sh u sigma. u" "\<lambda>k. if even k then 0 else 1 / 4" 0
       "\<lparr>heap = [IntArr (1, 1, 2) [80, 0]], log = [], rng = 2\<rparr>" "IntArr (1, 1, 2) [80, 0]" True 1,
       OF _ g u]
    by auto
  moreover have "noise (\<lambda>sh u sigma. u) (\<lambda>k. if even k then 0 else 1 / 4) 0 (1 / 2) True 1
      \<lparr>heap = [IntArr (1, 1, 2) [80, 0]], log = [], rng = 2\<rparr>
     = (Inr 1, \<lparr>heap = [IntArr (1, 1, 2) [80, 0], FltArr double (1, 1, 2) [40, 0]],
                log = [], rng = 4\<rparr>)"
    by (simp add: noise_def bind_io_def load_def rand_def lift_io_def np_mul_def alloc_def
         upt_rec_numeral)
  ultimately show ?thesis using g by simp
qed

section \<open>What a call leaves in the store\<close>

lemma allocatesI:
  assumes "\<And>w. \<exists>new. heap (snd (m w)) = heap w @ new
        \<and> (case fst (m w) of Inl e \<Rightarrow> True
            | Inr x \<Rightarrow> length new = k \<and> Q (length (heap w)) x)"
  shows "allocates k Q m"
  using assms unfolding allocates_def by blast

lemma allocatesD:
  assumes "allocates k Q m"
  shows "\<exists>new. heap (snd (m w)) = heap w @ new
    \<and> (\<forall>x. fst (m w) = Inr x \<longrightarrow> length new = k \<and> Q (length (heap w)) x)"
proof -
  obtain new where n: "heap (snd (m w)) = heap w @ new"
    "(case fst (m w) of Inl e \<Rightarrow> True | Inr x \<Rightarrow> length new = k \<and> Q (length (heap w)) x)"
    using assms unfolding allocates_def by blast
  have "\<forall>x. fst (m w) = Inr x \<longrightarrow> length new = k \<and> Q (length (heap w)) x"
    using n(2) by (auto split: sum.splits)
  then show ?thesis using n(1) by blast
qed

lemma allocates_return: "allocates 0 (\<lambda>n x. True) (return_io v)"
  by (rule allocatesI) (simp add: return_io_def)

lemma allocates_lift: "allocates 0 (\<lambda>n x. True) (lift_io r)"
  by (rule allocatesI) (simp add: lift_io_def split: sum.splits)

lemma allocates_load: "allocates 0 (\<lambda>n x. True) (load p)"
  by (rule allocatesI) (simp add: load_def)

lemma allocates_log: "allocates 0 (\<lambda>n x. True) (log_record s)"
  by (rule allocatesI) (simp add: log_record_def)

lemma allocates_alloc: "allocates 1 (\<lambda>n x. x = n) (alloc a)"
  by (rule allocatesI) (simp add: alloc_def)

lemma allocates_weaken:
  assumes "allocates k Q m" "\<And>n x. Q n x \<Longrightarrow> Q' n x"
  shows "allocates k Q' m"
proof (rule allocatesI)
  fix w
  obtain new where n: "heap (snd (m w)) = heap w @ new"
    "\<forall>x. fst (m w) = Inr x \<longrightarrow> length new = k \<and> Q (length (heap w)) x"
    using allocatesD[OF assms(1), of w] by blast
  have "case fst (m w) of Inl e \<Rightarrow> True | Inr x \<Rightarrow> length new = k \<and> Q' (length (heap w)) x"
    using n(2) assms(2) by (simp split: sum.splits)
  then show "\<exists>new. heap (snd (m w)) = heap w @ new
        \<and> (case fst (m w) of Inl e \<Rightarrow> True | Inr x \<Rightarrow> length new = k \<and> Q' (length (heap w)) x)"
    using n(1) by blast
qed

lemma allocates_bind:
  assumes "allocates j Q m" "\<And>x. allocates k Q' (f x)"
  shows "allocates (j + k) (\<lambda>n y. Q' (n + j) y) (bind_io m f)"
proof (rule allocatesI)
  fix w
  obtain new where m: "heap (snd (m w)) = heap w @ new"
    "\<forall>x. fst (m w) = Inr x \<longrightarrow> length new = j \<and> Q (length (heap w)) x"
    using allocatesD[OF assms(1), of w] by blast
  show "\<exists>new. heap (snd (bind_io m f w)) = heap w @ new
        \<and> (case fst (bind_io m f w) of Inl e \<Rightarrow> True
            | Inr y \<Rightarrow> length new = j + k \<and> Q' (length (heap w) + j) y)"
  proof (cases "fst (m w)")
    case (Inl e)
    then have "bind_io m f w = (Inl e, snd (m w))"
      by (cases "m w") (simp add: bind_io_def)
    then show ?thesis using m(1) by simp
  next
    case (Inr x)
    then have b: "bind_io m f w = f x (snd (m w))"
      by (cases "m w") (simp add: bind_io_def)
    obtain new' where f: "heap (snd (f x (snd (m w)))) = heap (snd (m w)) @ new'"
      "\<forall>y. fst (f x (snd (m w))) = Inr y \<longrightarrow>
          length new' = k \<and> Q' (length (heap (snd (m w)))) y"
      using allocatesD[OF assms(2), of x "snd (m w)"] by blast
    have l: "length new = j" using m(2) Inr by simp
    have h: "heap (snd (bind_io m f w)) = heap w @ (new @ new')"
      using b f(1) m(1) by simp
    have "case fst (bind_io m f w) of Inl e \<Rightarrow> True
            | Inr y \<Rightarrow> length (new @ new') = j + k \<and> Q' (length (heap w) + j) y"
      unfolding b using f(2) l m(1) by (simp split: sum.splits)
    then show ?thesis using h by blast
  qed
qed


lemma bind_io_Inl: "fst (m w) = Inl e \<Longrightarrow> bind_io m f w = (Inl e, snd (m w))"
  by (cases "m w") (simp add: bind_io_def)

lemma bind_io_Inr: "fst (m w) = Inr x \<Longrightarrow> bind_io m f w = f x (snd (m w))"
  by (cases "m w") (simp add: bind_io_def)

lemma update_refl: "\<exists>a'. (h :: 'a list) = h[p := a']"
  by (metis list_update_id)

text \<open>An indexed assignment changes at most the object it is applied to.\<close>

lemma setitem_heap: "\<exists>a'. heap (snd (setitem p m x w)) = (heap w)[p := a']"
proof (cases "p < length (heap w)")
  case True
  show ?thesis
  proof (cases "assign_mask (heap w ! p) m x")
    case (Inl e)
    then have "heap (snd (setitem p m x w)) = heap w"
      using True by (simp add: setitem_def bind_io_def load_def lift_io_def)
    then have "heap (snd (setitem p m x w)) = (heap w)[p := heap w ! p]" by simp
    then show ?thesis by blast
  next
    case (Inr a')
    then have "heap (snd (setitem p m x w)) = (heap w)[p := a']"
      using True by (simp add: setitem_def bind_io_def load_def lift_io_def store_def)
    then show ?thesis by blast
  qed
next
  case False
  then have "heap (snd (setitem p m x w)) = heap w"
    by (simp add: setitem_def bind_io_def load_def)
  then show ?thesis using update_refl[of "heap w" p] by simp
qed

lemma paint_heap_update:
  "\<exists>a'. heap (snd (paint tag P im res names w)) = (heap w)[res := a']"
proof (induction names arbitrary: w)
  case Nil
  show ?case using update_refl by (simp add: return_io_def)
next
  case (Cons attr names)
  let ?rest = "\<lambda>v. bind_io (load im) (\<lambda>a.
     bind_io (lift_io (indices Act a attr)) (\<lambda>m.
     bind_io (setitem res m v) (\<lambda>_.
     paint tag P im res names)))"
  have rest: "\<exists>a'. heap (snd (?rest v w1)) = (heap w1)[res := a']" for v w1
  proof (cases "im < length (heap w1)")
    case False
    then show ?thesis using update_refl by (simp add: bind_io_def load_def)
  next
    case True
    show ?thesis
    proof (cases "indices Act (heap w1 ! im) attr")
      case (Inl e)
      then show ?thesis using True update_refl by (simp add: bind_io_def load_def lift_io_def)
    next
      case (Inr m)
      obtain a1 where a1: "heap (snd (setitem res m v w1)) = (heap w1)[res := a1]"
        using setitem_heap by blast
      have e: "?rest v w1 = bind_io (setitem res m v) (\<lambda>_. paint tag P im res names) w1"
        using True Inr by (simp add: bind_io_def load_def lift_io_def)
      show ?thesis
      proof (cases "fst (setitem res m v w1)")
        case (Inl e')
        then show ?thesis unfolding e using a1 by (auto simp: bind_io_Inl)
      next
        case (Inr u)
        obtain a2 where "heap (snd (paint tag P im res names (snd (setitem res m v w1))))
           = (heap (snd (setitem res m v w1)))[res := a2]"
          using Cons.IH by blast
        then show ?thesis unfolding e using a1 Inr by (auto simp: bind_io_Inr)
      qed
    qed
  qed
  show ?case
  proof (cases "getattr_cls P attr")
    case (Inl e)
    then show ?thesis using update_refl by (simp add: bind_io_def lift_io_def)
  next
    case (Inr x)
    show ?thesis
    proof (cases "format_debug tag attr x")
      case (Inl e)
      then show ?thesis using Inr update_refl by (simp add: bind_io_def lift_io_def)
    next
      case l: (Inr line)
      show ?thesis
      proof (cases "number x")
        case (Inl e)
        then show ?thesis
          using Inr l update_refl by (simp add: bind_io_def lift_io_def log_record_def)
      next
        case n: (Inr v)
        have "paint tag P im res (attr # names) w = ?rest v (w\<lparr>log := log w @ [line]\<rparr>)"
          using Inr l n by (simp add: bind_io_def lift_io_def log_record_def)
        then show ?thesis using rest[of v "w\<lparr>log := log w @ [line]\<rparr>"] by simp
      qed
    qed
  qed
qed

lemma append_update_last: "(h @ [z])[length h := a] = h @ [a]"
  by simp

lemma allocates_profile_volume: "allocates 1 (\<lambda>n x. x = n) (profile_volume tag P im)"
proof (rule allocatesI)
  fix w :: world
  let ?n = "length (heap w)"
  show "\<exists>new. heap (snd (profile_volume tag P im w)) = heap w @ new
        \<and> (case fst (profile_volume tag P im w) of Inl e \<Rightarrow> True
            | Inr x \<Rightarrow> length new = 1 \<and> x = length (heap w))"
  proof (cases "im < length (heap w)")
    case False
    then show ?thesis by (simp add: profile_volume_def bind_io_def load_def)
  next
    case True
    let ?w1 = "w\<lparr>heap := heap w @ [zeros_like (heap w ! im)]\<rparr>"
    show ?thesis
    proof (cases "attrs_of P")
      case (Inl e)
      then show ?thesis
        using True by (simp add: profile_volume_def bind_io_def load_def alloc_def lift_io_def)
    next
      case (Inr names)
      obtain a' where "heap (snd (paint tag P im ?n names ?w1)) = (heap ?w1)[?n := a']"
        using paint_heap_update by blast
      then have h: "heap (snd (paint tag P im ?n names ?w1)) = heap w @ [a']"
        by simp
      have e: "profile_volume tag P im w =
         bind_io (paint tag P im ?n names) (\<lambda>_. return_io ?n) ?w1"
        using True Inr by (simp add: profile_volume_def bind_io_def load_def alloc_def lift_io_def)
      show ?thesis
      proof (cases "fst (paint tag P im ?n names ?w1)")
        case (Inl e')
        then show ?thesis unfolding e using h by (simp add: bind_io_Inl)
      next
        case (Inr u)
        then show ?thesis unfolding e using h by (simp add: bind_io_Inr return_io_def)
      qed
    qed
  qed
qed

lemma allocates_muMap_volume: "allocates 1 (\<lambda>n x. x = n) (muMap_volume dt im)"
proof (rule allocatesI)
  fix w :: world
  let ?n = "length (heap w)"
  show "\<exists>new. heap (snd (muMap_volume dt im w)) = heap w @ new
        \<and> (case fst (muMap_volume dt im w) of Inl e \<Rightarrow> True
            | Inr x \<Rightarrow> length new = 1 \<and> x = length (heap w))"
  proof (cases "im < length (heap w)")
    case False
    then show ?thesis by (simp add: muMap_volume_def bind_io_def load_def)
  next
    case True
    let ?a = "heap w ! im"
    let ?w1 = "w\<lparr>heap := heap w @ [zeros (shape_of ?a) dt]\<rparr>"
    let ?s1 = "setitem ?n (np_ne ?a 0) mu_tissue_1_cm ?w1"
    obtain a1 where "heap (snd ?s1) = (heap ?w1)[?n := a1]"
      using setitem_heap by blast
    then have h1: "heap (snd ?s1) = heap w @ [a1]" by simp
    let ?k = "\<lambda>u. bind_io (load im) (\<lambda>a2.
       bind_io (lift_io (indices Act a2 ''bone'')) (\<lambda>m.
       bind_io (setitem ?n m mu_bone_1_cm) (\<lambda>_. return_io ?n)))"
    have e: "muMap_volume dt im w = bind_io (setitem ?n (np_ne ?a 0) mu_tissue_1_cm) ?k ?w1"
      using True by (simp add: muMap_volume_def bind_io_def load_def alloc_def nth_append)
    show ?thesis
    proof (cases "fst ?s1")
      case (Inl e')
      then show ?thesis unfolding e using h1 by (simp add: bind_io_Inl)
    next
      case (Inr u)
      let ?w2 = "snd ?s1"
      have im2: "im < length (heap ?w2)" "heap ?w2 ! im = ?a"
        using True h1 by (simp_all add: nth_append)
      show ?thesis
      proof (cases "indices Act ?a ''bone''")
        case (Inl e')
        then show ?thesis
          unfolding e using Inr h1 im2
          by (simp add: bind_io_Inr) (simp add: bind_io_def load_def lift_io_def)
      next
        case m: (Inr m)
        let ?s2 = "setitem ?n m mu_bone_1_cm ?w2"
        obtain a2 where "heap (snd ?s2) = (heap ?w2)[?n := a2]"
          using setitem_heap by blast
        then have h2: "heap (snd ?s2) = heap w @ [a2]" using h1 by simp
        have e2: "?k u ?w2 = bind_io (setitem ?n m mu_bone_1_cm) (\<lambda>_. return_io ?n) ?w2"
          using im2 m by (simp add: bind_io_def load_def lift_io_def)
        have e3: "muMap_volume dt im w = bind_io (setitem ?n m mu_bone_1_cm) (\<lambda>_. return_io ?n) ?w2"
          unfolding e using Inr e2 by (simp add: bind_io_Inr)
        show ?thesis
        proof (cases "fst ?s2")
          case (Inl e')
          then show ?thesis unfolding e3 using h2 by (simp add: bind_io_Inl)
        next
          case (Inr u')
          then show ?thesis unfolding e3 using h2 by (simp add: bind_io_Inr return_io_def)
        qed
      qed
    qed
  qed
qed

lemma map_upt_Suc_shift: "n # map (\<lambda>k. n + 1 + k) [0..<l] = map (\<lambda>k. n + k) [0..<Suc l]"
proof -
  have "map (\<lambda>k. n + k) [0..<Suc l] = (n + 0) # map (\<lambda>k. n + k) (map Suc [0..<l])"
    by (simp only: upt_conv_Cons[of 0 "Suc l"] map_Suc_upt list.map)
  then show ?thesis by (simp add: comp_def)
qed

lemma allocates_mapM:
  assumes "\<And>i. allocates 1 (\<lambda>n x. x = n) (f i)"
  shows "allocates (length is) (\<lambda>n outs. outs = map (\<lambda>k. n + k) [0..<length is]) (mapM_io f is)"
proof (induction "is")
  case Nil
  show ?case by (rule allocatesI) (simp add: return_io_def)
next
  case (Cons i "is")
  show ?case
  proof (rule allocatesI)
    fix w :: world
    let ?n = "length (heap w)"
    let ?k = "\<lambda>y. bind_io (mapM_io f is) (\<lambda>ys. return_io (y # ys))"
    obtain new where n: "heap (snd (f i w)) = heap w @ new"
      "\<forall>x. fst (f i w) = Inr x \<longrightarrow> length new = 1 \<and> x = ?n"
      using allocatesD[OF assms, of i w] by blast
    show "\<exists>new. heap (snd (mapM_io f (i # is) w)) = heap w @ new
        \<and> (case fst (mapM_io f (i # is) w) of Inl e \<Rightarrow> True
            | Inr outs \<Rightarrow> length new = length (i # is)
                \<and> outs = map (\<lambda>k. length (heap w) + k) [0..<length (i # is)])"
    proof (cases "fst (f i w)")
      case (Inl e)
      then show ?thesis using n(1) by (simp add: bind_io_Inl)
    next
      case (Inr y)
      let ?w1 = "snd (f i w)"
      have y: "y = ?n" "length new = 1" using n(2) Inr by simp_all
      obtain new' where n': "heap (snd (mapM_io f is ?w1)) = heap ?w1 @ new'"
        "\<forall>x. fst (mapM_io f is ?w1) = Inr x \<longrightarrow>
            length new' = length is \<and> x = map (\<lambda>k. length (heap ?w1) + k) [0..<length is]"
        using allocatesD[OF Cons.IH, of ?w1] by blast
      have e: "mapM_io f (i # is) w = ?k y ?w1"
        using Inr by (simp add: bind_io_Inr)
      have h: "heap (snd (mapM_io f is ?w1)) = heap w @ (new @ new')"
        using n(1) n'(1) by simp
      show ?thesis
      proof (cases "fst (mapM_io f is ?w1)")
        case (Inl e')
        then show ?thesis unfolding e using h by (simp add: bind_io_Inl)
      next
        case r: (Inr ys)
        have ys: "ys = map (\<lambda>k. ?n + 1 + k) [0..<length is]" "length new' = length is"
          using n'(2) r n(1) y(2) by simp_all
        have "?k y ?w1 = (Inr (y # ys), snd (mapM_io f is ?w1))"
          using r by (simp add: bind_io_Inr return_io_def)
        moreover have "y # ys = map (\<lambda>k. ?n + k) [0..<length (i # is)]"
          unfolding y(1) ys(1) by (simp only: length_Cons map_upt_Suc_shift)
        moreover have "length (new @ new') = length (i # is)"
          using y(2) ys(2) by simp
        ultimately show ?thesis unfolding e using h by (simp del: upt_Suc)
      qed
    qed
  qed
qed


lemma allocates_cong:
  assumes "allocates k Q m" "k = k'" "\<And>n x. Q n x \<Longrightarrow> Q' n x"
  shows "allocates k' Q' m"
  using allocates_weaken[OF assms(1,3)] assms(2) by simp

lemma allocates_toPetMmr:
  "allocates 8 (\<lambda>n outs. outs = [n + 4, n + 5, n + 6, n + 7])
     (toPetMmr resize im pad dt outres)"
proof -
  let ?Qm = "\<lambda>n outs. outs = [n, n + 1, n + 2, n + 3 :: nat]"
  let ?step = "\<lambda>ns pl pr i. bind_io (load i) (\<lambda>arr.
                 bind_io (lift_io (resizeToMmr resize ns pad pl pr dt arr)) alloc)"
  have st: "allocates 1 (\<lambda>n x. x = n) (?step ns pl pr i)" for ns pl pr i
    by (rule allocates_cong[OF allocates_bind[OF allocates_load
            allocates_bind[OF allocates_lift allocates_alloc]]]) simp_all
  have mm: "allocates 4 ?Qm (mapM_io (?step ns pl pr) [r, mu, t1, t2])" for ns pl pr r mu t1 t2
    by (rule allocates_cong[OF allocates_mapM[of "?step ns pl pr" "[r, mu, t1, t2]", OF st]])
       simp_all
  let ?k7 = "\<lambda>out_res out_shape r mu t1 t2. bind_io (load im) (\<lambda>a.
     (let new_shape = new_shape_of (shape_of a) out_res;
          padLR = vmap (\<lambda>d. fst (divmod2 d)) (vsub out_shape new_shape);
          padR = vmap (\<lambda>d. snd (divmod2 d)) (vsub out_shape new_shape)
      in mapM_io (?step new_shape padLR padR) [r, mu, t1, t2]))"
  have s7: "allocates 4 ?Qm (?k7 os osh r mu t1 t2)" for os osh r mu t1 t2
    unfolding Let_def
    by (rule allocates_cong[OF allocates_bind[OF allocates_load mm]]) simp_all
  let ?k6 = "\<lambda>os osh r mu t1. bind_io (profile_volume ''T2'' T2 im) (?k7 os osh r mu t1)"
  have s6: "allocates 5 (\<lambda>n y. ?Qm (n + 1) y) (?k6 os osh r mu t1)" for os osh r mu t1
    by (rule allocates_cong[OF allocates_bind[OF allocates_profile_volume s7]]) simp_all
  let ?k5 = "\<lambda>os osh r mu. bind_io (profile_volume ''T1'' T1 im) (?k6 os osh r mu)"
  have s5: "allocates 6 (\<lambda>n y. ?Qm (n + 2) y) (?k5 os osh r mu)" for os osh r mu
    by (rule allocates_cong[OF allocates_bind[OF allocates_profile_volume s6]]) simp_all
  let ?k4 = "\<lambda>os osh r. bind_io (muMap_volume dt im) (?k5 os osh r)"
  have s4: "allocates 7 (\<lambda>n y. ?Qm (n + 3) y) (?k4 os osh r)" for os osh r
    by (rule allocates_cong[OF allocates_bind[OF allocates_muMap_volume s5]]) simp_all
  let ?k3 = "\<lambda>os osh. bind_io (profile_volume ''PET'' Pet im) (?k4 os osh)"
  have s3: "allocates 8 (\<lambda>n y. ?Qm (n + 4) y) (?k3 os osh)" for os osh
    by (rule allocates_cong[OF allocates_bind[OF allocates_profile_volume s4]]) simp_all
  let ?k2 = "\<lambda>os. bind_io (lift_io (getattr_vec Shape outres)) (?k3 os)"
  have s2: "allocates 8 (\<lambda>n y. ?Qm (n + 4) y) (?k2 os)" for os
    by (rule allocates_cong[OF allocates_bind[OF allocates_lift s3]]) simp_all
  have s1: "allocates 8 (\<lambda>n y. ?Qm (n + 4) y)
       (bind_io (lift_io (getattr_vec Res outres)) ?k2)"
    by (rule allocates_cong[OF allocates_bind[OF allocates_lift s2]]) simp_all
  show ?thesis
    unfolding toPetMmr_def by (rule allocates_cong[OF s1]) simp_all
qed

text \<open>
  Claim C10. Whatever its arguments and the state, a call of \<open>toPetMmr\<close> leaves every
  array object that existed before the call as it was, the labelled volume among them,
  and only adds objects to the store; when it returns, it has added eight objects, and
  the four volumes it returns are the last four of them. A second call, with any
  arguments, again only adds objects: it leaves the objects of the first call as they
  are, and the volumes it returns are new ones.
\<close>

theorem toPetMmr_fresh:
  "let first = toPetMmr resize im pad dt outres w;
       second = toPetMmr resize' im' pad' dt' outres' (snd first)
   in \<exists>new new'.
        heap (snd first) = heap w @ new
      \<and> (case fst first of Inl e \<Rightarrow> True
          | Inr outs \<Rightarrow> length new = 8
              \<and> outs = [length (heap w) + 4, length (heap w) + 5, length (heap w) + 6,
                         length (heap w) + 7])
      \<and> heap (snd second) = heap w @ new @ new'
      \<and> (case fst second of Inl e \<Rightarrow> True
          | Inr outs' \<Rightarrow> length new' = 8
              \<and> outs' = [length (heap w) + length new + 4, length (heap w) + length new + 5,
                          length (heap w) + length new + 6, length (heap w) + length new + 7])"
proof -
  let ?first = "toPetMmr resize im pad dt outres w"
  let ?second = "toPetMmr resize' im' pad' dt' outres' (snd ?first)"
  obtain new where a: "heap (snd ?first) = heap w @ new"
    "case fst ?first of Inl e \<Rightarrow> True
     | Inr outs \<Rightarrow> length new = 8
         \<and> outs = [length (heap w) + 4, length (heap w) + 5, length (heap w) + 6,
                    length (heap w) + 7]"
    using allocates_toPetMmr[of resize im pad dt outres] unfolding allocates_def by blast
  obtain new' where b: "heap (snd ?second) = heap (snd ?first) @ new'"
    "case fst ?second of Inl e \<Rightarrow> True
     | Inr outs' \<Rightarrow> length new' = 8
         \<and> outs' = [length (heap (snd ?first)) + 4, length (heap (snd ?first)) + 5,
                     length (heap (snd ?first)) + 6, length (heap (snd ?first)) + 7]"
    using allocates_toPetMmr[of resize' im' pad' dt' outres'] unfolding allocates_def by blast
  have "heap (snd ?second) = heap w @ new @ new'"
    using a(1) b(1) by simp
  moreover have "case fst ?second of Inl e \<Rightarrow> True
     | Inr outs' \<Rightarrow> length new' = 8
         \<and> outs' = [length (heap w) + length new + 4, length (heap w) + length new + 5,
                     length (heap w) + length new + 6, length (heap w) + length new + 7]"
    using b(2) unfolding a(1) by (simp split: sum.splits)
  ultimately show ?thesis
    unfolding Let_def using a by blast
qed

section \<open>Resampling and padding\<close>



























end
